theory Spec2Isabelle
  imports Complex_Main "HOL-Library.Multiset" "HOL-Library.List_Lexorder" "HOL-Library.Char_ord"
begin

section \<open>Errors\<close>

text \<open>
  The Python exceptions the modelled functions can raise. A bare
  \<^verbatim>\<open>raise FileNotFoundError\<close> carries the empty message.
\<close>

datatype error =
    FileNotFoundError string
  | RuntimeError string
  | ValueError
  | KeyError string
  | AttributeError
  | TypeError

section \<open>Spatial coarsening: \<^verbatim>\<open>coarse_dataframe\<close>\<close>

text \<open>
  A geometry is a planar point; \<^verbatim>\<open>pt.distance(other)\<close> of the geometry library is
  the Euclidean distance between the two points.
\<close>

type_synonym point = "real \<times> real"

definition distance :: "point \<Rightarrow> point \<Rightarrow> real" where
  "distance p q = sqrt ((fst p - fst q)\<^sup>2 + (snd p - snd q)\<^sup>2)"

text \<open>
  A cell of the \<^verbatim>\<open>category\<close> column: the column is initialised with the integer
  \<^verbatim>\<open>-1\<close> and later holds strings \<^verbatim>\<open>str(category)\<close>.
\<close>

datatype cat_cell = IntCat int | StrCat string

definition unassigned :: cat_cell where
  "unassigned = IntCat (- 1)"

text \<open>Python's \<^verbatim>\<open>str\<close> of a non-negative integer: its decimal digits.\<close>

definition digit_char :: "nat \<Rightarrow> char" where
  "digit_char d = ''0123456789'' ! d"

fun str_nat :: "nat \<Rightarrow> string" where
  "str_nat n = (if n < 10 then [digit_char n] else str_nat (n div 10) @ [digit_char (n mod 10)])"

declare str_nat.simps [simp del]

text \<open>Python's slice \<^verbatim>\<open>xs[:k]\<close>: a negative bound counts from the end.\<close>

definition py_slice_to :: "int \<Rightarrow> 'a list \<Rightarrow> 'a list" where
  "py_slice_to k xs = (if 0 \<le> k then take (nat k) xs else take (nat (int (length xs) + k)) xs)"

text \<open>\<^verbatim>\<open>np.unique\<close>: the sorted distinct values.\<close>

definition np_unique :: "real list \<Rightarrow> real list" where
  "np_unique ds = sort (remdups ds)"

text \<open>\<^verbatim>\<open>np.max\<close>: raises \<^verbatim>\<open>ValueError\<close> on an empty array.\<close>

definition np_max :: "real list \<Rightarrow> error + real" where
  "np_max ds = (case ds of [] \<Rightarrow> Inl ValueError | d # ds' \<Rightarrow> Inr (fold max ds' d))"

text \<open>
  Line 369: one triple per row of the table, \<^verbatim>\<open>(i, pt.distance(geometry[n]), category[n])\<close>.
  The third component is the category of the current row \<^verbatim>\<open>n\<close>, not of row \<^verbatim>\<open>i\<close>.
\<close>

definition distances_of :: "point list \<Rightarrow> cat_cell list \<Rightarrow> nat \<Rightarrow> (nat \<times> real \<times> cat_cell) list" where
  "distances_of geoms cats n =
     map (\<lambda>(i, pt). (i, distance pt (geoms ! n), cats ! n)) (enumerate 0 geoms)"

text \<open>Lines 370 and 373: the stable sort by distance, then the filter on the third component.\<close>

definition candidates :: "point list \<Rightarrow> cat_cell list \<Rightarrow> nat \<Rightarrow> (nat \<times> real \<times> cat_cell) list" where
  "candidates geoms cats n =
     filter (\<lambda>t. snd (snd t) = unassigned)
       (sort_key (\<lambda>t. fst (snd t)) (distances_of geoms cats n))"

text \<open>Line 376.\<close>

definition max_dist_of :: "int \<Rightarrow> (nat \<times> real \<times> cat_cell) list \<Rightarrow> error + real" where
  "max_dist_of side_square ds =
     np_max (py_slice_to (2 * side_square) (np_unique (map (\<lambda>t. fst (snd t)) ds)))"

text \<open>Line 379.\<close>

definition indexes_of :: "real \<Rightarrow> (nat \<times> real \<times> cat_cell) list \<Rightarrow> nat list" where
  "indexes_of max_dist ds = map fst (filter (\<lambda>t. fst (snd t) \<le> max_dist) ds)"

text \<open>
  Line 383, \<^verbatim>\<open>data_df.loc[indexes,'category'] = str(category)\<close>, on a table with
  the default index, where the label of a row is its position.
\<close>

definition loc_assign :: "nat list \<Rightarrow> cat_cell \<Rightarrow> cat_cell list \<Rightarrow> cat_cell list" where
  "loc_assign indexes v cats = fold (\<lambda>i cs. cs[i := v]) indexes cats"

text \<open>The body of the loop for one row \<^verbatim>\<open>n\<close>; the state is the category column and the counter.\<close>

definition coarse_step :: "point list \<Rightarrow> int \<Rightarrow> nat \<Rightarrow> cat_cell list \<times> nat \<Rightarrow> error + (cat_cell list \<times> nat)" where
  "coarse_step geoms side_square n st =
     (case st of (cats, category) \<Rightarrow>
        if cats ! n = unassigned then
          (let ds = candidates geoms cats n in
           case max_dist_of side_square ds of
             Inl e \<Rightarrow> Inl e
           | Inr max_dist \<Rightarrow>
               Inr (loc_assign (indexes_of max_dist ds) (StrCat (str_nat category)) cats, category + 1))
        else Inr (cats, category))"

fun coarse_loop :: "point list \<Rightarrow> int \<Rightarrow> nat list \<Rightarrow> cat_cell list \<times> nat \<Rightarrow> error + (cat_cell list \<times> nat)" where
  "coarse_loop geoms side_square [] st = Inr st"
| "coarse_loop geoms side_square (n # ns) st =
     (case coarse_step geoms side_square n st of
        Inl e \<Rightarrow> Inl e
      | Inr st' \<Rightarrow> coarse_loop geoms side_square ns st')"

text \<open>Lines 360 to 385: the category column after the loop.\<close>

definition coarse_categories :: "point list \<Rightarrow> int \<Rightarrow> error + cat_cell list" where
  "coarse_categories geoms side_square =
     (case coarse_loop geoms side_square [0..<length geoms] (replicate (length geoms) unassigned, 0) of
        Inl e \<Rightarrow> Inl e
      | Inr (cats, category) \<Rightarrow> Inr cats)"

text \<open>
  Line 388 reads the \<^verbatim>\<open>.str\<close> accessor of the \<^verbatim>\<open>category\<close> column. The column is
  created by line 360 with the integer dtype and keeps it until line 383 writes a string
  into it; on a column of integers only (also one with no rows) the accessor raises
  \<^verbatim>\<open>AttributeError\<close>.
\<close>

definition is_int_cat :: "cat_cell \<Rightarrow> bool" where
  "is_int_cat c = (case c of IntCat k \<Rightarrow> True | StrCat s \<Rightarrow> False)"

definition str_accessor :: "cat_cell list \<Rightarrow> error + cat_cell list" where
  "str_accessor col = (if list_all is_int_cat col then Inl AttributeError else Inr col)"

text \<open>
  Line 388, \<^verbatim>\<open>.str.cat(data_df['date'], sep="_")\<close>, on one cell: a cell that is not a
  string gives a missing value.
\<close>

definition str_cat :: "cat_cell \<Rightarrow> string \<Rightarrow> string option" where
  "str_cat c d = (case c of StrCat s \<Rightarrow> Some (s @ ''_'' @ d) | IntCat k \<Rightarrow> None)"

text \<open>
  A row of the input table (its date and its geometry) and a row of the dissolved table:
  the group key \<^verbatim>\<open>(category, date)\<close>, the positions of the rows grouped under it, and
  their geometries. Every other column of the output is aggregated over the same members.
\<close>

record geo_row =
  row_date :: string
  row_geometry :: point

record block =
  block_category :: string
  block_date :: string
  members :: "nat list"
  block_geometry :: "point list"

text \<open>
  Line 390, \<^verbatim>\<open>dissolve(by=['category','date'])\<close>: one group per distinct key, rows
  with a missing key dropped. The library orders the groups by key; no statement below
  depends on the order of the groups.
\<close>

definition group_keys :: "cat_cell list \<Rightarrow> geo_row list \<Rightarrow> (string \<times> string) option list" where
  "group_keys cats df =
     map (\<lambda>(c, r). map_option (\<lambda>k. (k, row_date r)) (str_cat c (row_date r))) (zip cats df)"

definition dissolve :: "(string \<times> string) option list \<Rightarrow> geo_row list \<Rightarrow> block list" where
  "dissolve keys df =
     map (\<lambda>k. let ms = filter (\<lambda>i. keys ! i = Some k) [0..<length df] in
            \<lparr> block_category = fst k, block_date = snd k, members = ms,
              block_geometry = map (\<lambda>i. row_geometry (df ! i)) ms \<rparr>)
         (remdups (List.map_filter id keys))"

definition coarse_dataframe :: "geo_row list \<Rightarrow> int \<Rightarrow> error + block list" where
  "coarse_dataframe data_df side_square =
     (case coarse_categories (map row_geometry data_df) side_square of
        Inl e \<Rightarrow> Inl e
      | Inr cats \<Rightarrow>
          (case str_accessor cats of
             Inl e \<Rightarrow> Inl e
           | Inr col \<Rightarrow> Inr (dissolve (group_keys col data_df) data_df)))"

text \<open>Example tables: three collinear points, one unit apart.\<close>

definition pts3 :: "point list" where
  "pts3 = [(0, 0), (1, 0), (2, 0)]"

definition df3 :: "geo_row list" where
  "df3 = [\<lparr>row_date = ''2020-01-01'', row_geometry = (0, 0)\<rparr>,
          \<lparr>row_date = ''2020-01-01'', row_geometry = (1, 0)\<rparr>,
          \<lparr>row_date = ''2020-02-01'', row_geometry = (2, 0)\<rparr>]"

section \<open>Geospatial attachment: \<^verbatim>\<open>convert_to_geopandas\<close>\<close>

text \<open>
  A row of a table with \<^verbatim>\<open>lat\<close> and \<^verbatim>\<open>long\<close> columns; the \<^verbatim>\<open>geometry\<close> column is
  missing before the first call. Every other column is in the extension of the record.
\<close>

record latlong_row =
  lat :: real
  long :: real
  geometry :: "point option"

definition Point :: "real \<times> real \<Rightarrow> point" where
  "Point xy = xy"

text \<open>\<^verbatim>\<open>df['geometry'] = values\<close>: the column is written into the table row by row.\<close>

definition assign_column :: "point list \<Rightarrow> 'a latlong_row_scheme list \<Rightarrow> 'a latlong_row_scheme list" where
  "assign_column vs df = map (\<lambda>(r, v). r\<lparr>geometry := Some v\<rparr>) (zip df vs)"

text \<open>
  Lines 232 to 234. The assignment of line 232 changes the caller's table; line 234 only
  rebinds the local name \<^verbatim>\<open>df\<close>, and the function has no \<^verbatim>\<open>return\<close>. The result is the
  pair of the returned value (\<^verbatim>\<open>None\<close>) and the caller's table after the call.
\<close>

definition convert_to_geopandas ::
  "'a latlong_row_scheme list \<Rightarrow> 'a latlong_row_scheme list option \<times> 'a latlong_row_scheme list" where
  "convert_to_geopandas df =
     (let df1 = assign_column (map Point (zip (map lat df) (map long df))) df;
          local_df = df1
      in (None, df1))"

definition cg_df0 :: "latlong_row list" where
  "cg_df0 = [\<lparr>lat = 1, long = 2, geometry = None\<rparr>]"

section \<open>Ingestion\<close>

text \<open>A loop whose body can raise: the first error ends it.\<close>

fun fold_err :: "('a \<Rightarrow> 's \<Rightarrow> error + 's) \<Rightarrow> 'a list \<Rightarrow> 's \<Rightarrow> error + 's" where
  "fold_err f [] s = Inr s"
| "fold_err f (x # xs) s = (case f x s of Inl e \<Rightarrow> Inl e | Inr s' \<Rightarrow> fold_err f xs s')"

text \<open>\<^verbatim>\<open>d[k] = v\<close> on a dict, kept as the list of its items in insertion order.\<close>

primrec dict_set :: "'k \<Rightarrow> 'v \<Rightarrow> ('k \<times> 'v) list \<Rightarrow> ('k \<times> 'v) list" where
  "dict_set k v [] = [(k, v)]"
| "dict_set k v (p # ps) = (if fst p = k then (k, v) # ps else p # dict_set k v ps)"

text \<open>The file system: the parsed document stored at each path that exists.\<close>

type_synonym 'd filesystem = "string \<rightharpoonup> 'd"

subsection \<open>\<^verbatim>\<open>variable_read_json_to_dataframe\<close>\<close>

datatype json =
    JNull
  | JBool bool
  | JNum real
  | JStr string
  | JArr "json list"
  | JObj "(string \<times> json) list"

fun is_dict :: "json \<Rightarrow> bool" where
  "is_dict (JObj kvs) = True"
| "is_dict j = False"

text \<open>
  Lines 189 to 208, the body of the loop over the items of \<^verbatim>\<open>time-series-data\<close>: the state
  is \<^verbatim>\<open>rows_list\<close>.
\<close>

definition time_point_step :: "string \<times> json \<Rightarrow> json list \<Rightarrow> error + json list" where
  "time_point_step item rows_list =
     (case item of (date, time_point) \<Rightarrow>
        if time_point = JNull \<or> time_point = JObj [] then Inr rows_list
        else (case time_point of
                JObj kvs \<Rightarrow>
                  if is_dict (snd (hd kvs)) then Inr (rows_list @ map snd kvs)
                  else Inr (rows_list @ [JObj (dict_set ''date'' (JStr date) kvs)])
              | _ \<Rightarrow> Inl AttributeError))"

text \<open>\<^verbatim>\<open>d[key]\<close> and \<^verbatim>\<open>d.items()\<close> on a parsed value.\<close>

definition subscript :: "json \<Rightarrow> string \<Rightarrow> error + json" where
  "subscript j k =
     (case j of
        JObj kvs \<Rightarrow> (case map_of kvs k of None \<Rightarrow> Inl (KeyError k) | Some v \<Rightarrow> Inr v)
      | _ \<Rightarrow> Inl TypeError)"

definition items :: "json \<Rightarrow> error + (string \<times> json) list" where
  "items j = (case j of JObj kvs \<Rightarrow> Inr kvs | _ \<Rightarrow> Inl AttributeError)"

text \<open>
  Line 212, \<^verbatim>\<open>pd.DataFrame(rows_list)\<close>. The library looks at the first element of the
  list: when it is a mapping it reads the keys of every element, one row per element, and
  an element that is not a mapping raises \<^verbatim>\<open>AttributeError\<close>. A table built that way
  is the list of its rows, each the fields of one element. A list whose first element is
  not a mapping is read by position; \<^verbatim>\<open>rows_list\<close> never has that shape, since every
  entry that appends to it appends a mapping first.
\<close>

datatype table = Records "(string \<times> json) list list" | Positional "json list"

fun row_fields :: "json \<Rightarrow> (string \<times> json) list" where
  "row_fields (JObj kvs) = kvs"
| "row_fields j = []"

definition DataFrame_rows :: "json list \<Rightarrow> error + table" where
  "DataFrame_rows rows_list =
     (case rows_list of
        [] \<Rightarrow> Inr (Records [])
      | r # rs \<Rightarrow>
          if is_dict r then
            (if list_all is_dict rows_list then Inr (Records (map row_fields rows_list))
             else Inl AttributeError)
          else Inr (Positional rows_list))"

text \<open>Lines 183 to 213, the body of the loop over the collections.\<close>

definition collection_step ::
  "string \<times> json \<Rightarrow> (string \<times> table) list \<Rightarrow> error + (string \<times> table) list" where
  "collection_step item dfs =
     (case item of (collection_name, coll_results) \<Rightarrow>
        (case subscript coll_results ''time-series-data'' of
           Inl e \<Rightarrow> Inl e
         | Inr tsd \<Rightarrow>
             (case items tsd of
                Inl e \<Rightarrow> Inl e
              | Inr entries \<Rightarrow>
                  (case fold_err time_point_step entries [] of
                     Inl e \<Rightarrow> Inl e
                   | Inr rows_list \<Rightarrow>
                       (case DataFrame_rows rows_list of
                          Inl e \<Rightarrow> Inl e
                        | Inr df \<Rightarrow> Inr (dict_set collection_name df dfs))))))"

definition variable_read_json_to_dataframe ::
  "json filesystem \<Rightarrow> string \<Rightarrow> error + (string \<times> table) list" where
  "variable_read_json_to_dataframe fs filename =
     (case fs filename of
        None \<Rightarrow> Inl (FileNotFoundError [])
      | Some data \<Rightarrow>
          (case items data of
             Inl e \<Rightarrow> Inl e
           | Inr colls \<Rightarrow> fold_err collection_step colls []))"

text \<open>
  The rows of a date entry as the specification gives them: none for an entry that is
  null or empty; one per sub-location object, with that object's own fields, when the
  values of the entry are themselves mappings; otherwise the one row of the entry's
  metrics with the date stored under \<^verbatim>\<open>date\<close>.
\<close>

definition spec_entry_rows :: "string \<Rightarrow> json \<Rightarrow> (string \<times> json) list list" where
  "spec_entry_rows date time_point =
     (case time_point of
        JObj kvs \<Rightarrow>
          if kvs = [] then []
          else if list_all is_dict (map snd kvs) then map (\<lambda>kv. row_fields (snd kv)) kvs
          else [dict_set ''date'' (JStr date) kvs]
      | _ \<Rightarrow> [])"

text \<open>
  The tables of a document as the specification gives them: under the name of each
  collection, the rows of the entries of its \<^verbatim>\<open>time-series-data\<close>, in their order.
\<close>

definition time_series_data :: "json \<Rightarrow> (string \<times> json) list" where
  "time_series_data coll_results =
     (case subscript coll_results ''time-series-data'' of
        Inr (JObj entries) \<Rightarrow> entries
      | _ \<Rightarrow> [])"

definition spec_table :: "json \<Rightarrow> table" where
  "spec_table coll_results =
     Records (concat (map (\<lambda>entry. spec_entry_rows (fst entry) (snd entry))
                          (time_series_data coll_results)))"

definition spec_tables :: "json \<Rightarrow> (string \<times> table) list" where
  "spec_tables data =
     fold (\<lambda>coll dfs. dict_set (fst coll) (spec_table (snd coll)) dfs) (row_fields data) []"

text \<open>
  The documents the function reads without an error: a mapping of collections, each a
  mapping whose \<^verbatim>\<open>time-series-data\<close> is a mapping of date entries, each entry null or
  a mapping whose values are all mappings as soon as the first one is. The entries of a
  summary file are of two kinds, both of that shape: keyed by sub-location, every value
  a mapping, or flat metrics, no value a mapping.
\<close>

definition entry_shape :: "json \<Rightarrow> bool" where
  "entry_shape time_point =
     (case time_point of
        JNull \<Rightarrow> True
      | JObj kvs \<Rightarrow> kvs = [] \<or> \<not> is_dict (snd (hd kvs)) \<or> list_all is_dict (map snd kvs)
      | _ \<Rightarrow> False)"

definition collection_shape :: "json \<Rightarrow> bool" where
  "collection_shape coll_results =
     (case subscript coll_results ''time-series-data'' of
        Inr (JObj entries) \<Rightarrow> list_all (\<lambda>entry. entry_shape (snd entry)) entries
      | _ \<Rightarrow> False)"

definition summary_shape :: "json \<Rightarrow> bool" where
  "summary_shape data =
     (case data of
        JObj colls \<Rightarrow> list_all (\<lambda>coll. collection_shape (snd coll)) colls
      | _ \<Rightarrow> False)"

definition doc_var :: json where
  "doc_var = JObj
     [(''COPERNICUS/S2'', JObj [(''type'', JStr ''vegetation''),
        (''time-series-data'', JObj
           [(''2020-01-01'', JObj [(''0'', JObj [(''date'', JStr ''2020-01-01''), (''offset50'', JNum 1)]),
                                  (''1'', JObj [(''date'', JStr ''2020-01-01''), (''offset50'', JNum 3)])]),
            (''2020-02-01'', JNull),
            (''2020-03-01'', JObj [])])]),
      (''ECMWF/ERA5/MONTHLY'', JObj [(''type'', JStr ''weather''),
        (''time-series-data'', JObj
           [(''2020-01-01'', JObj [(''total_precipitation'', JNum 2)])])])]"


subsection \<open>\<^verbatim>\<open>read_json_to_dataframe\<close>\<close>

text \<open>
  A cell of a table; a cell that was never set is missing. A row is the list of its set
  cells by column name, a table its column names and its rows under their index labels.
\<close>

datatype cell = Num real | Str string | Geom "real option \<times> real option"

type_synonym row = "(string \<times> cell) list"

record dataframe =
  columns :: "string list"
  rows :: "(nat \<times> row) list"

definition DataFrame :: "string list \<Rightarrow> dataframe" where
  "DataFrame cols = \<lparr>columns = cols, rows = []\<rparr>"

text \<open>
  \<^verbatim>\<open>df.loc[i, col] = v\<close>: sets the cell of the row labelled \<^verbatim>\<open>i\<close>, appending the row
  or the column when the table does not have it yet.
\<close>

definition loc_set :: "nat \<Rightarrow> string \<Rightarrow> cell \<Rightarrow> dataframe \<Rightarrow> dataframe" where
  "loc_set i col v df =
     \<lparr>columns = (if col \<in> set (columns df) then columns df else columns df @ [col]),
      rows = (if i \<in> set (map fst (rows df))
              then map (\<lambda>(l, r). if l = i then (l, dict_set col v r) else (l, r)) (rows df)
              else rows df @ [(i, [(col, v)])])\<rparr>"

text \<open>\<^verbatim>\<open>df[col] == v\<close> on one row: a missing cell equals nothing.\<close>

definition cell_is :: "string \<Rightarrow> cell \<Rightarrow> row \<Rightarrow> bool" where
  "cell_is col v r = (map_of r col = Some v)"

text \<open>\<^verbatim>\<open>df.index[criteria].tolist()\<close>: the labels of the rows that meet the criteria.\<close>

definition matched_indices_of :: "(row \<Rightarrow> bool) \<Rightarrow> dataframe \<Rightarrow> nat list" where
  "matched_indices_of criteria df = map fst (filter (\<lambda>(l, r). criteria r) (rows df))"

text \<open>
  The input document, typed by the format of the summary file: a collection whose
  \<^verbatim>\<open>type\<close> is \<^verbatim>\<open>vegetation\<close> maps each date to \<^verbatim>\<open>null\<close> or to its sub-location
  records, a collection of any other type maps each date to \<^verbatim>\<open>null\<close> or to its metrics.
\<close>

record space_point =
  sp_date :: string
  latitude :: real
  longitude :: real
  offset50 :: real

datatype collection =
    Vegetation "(string \<times> (string \<times> space_point) list option) list"
  | Other "(string \<times> (string \<times> cell) list option) list"

type_synonym document = "(string \<times> collection) list"

definition build_error :: error where
  "build_error = RuntimeError ''Error when building DataFrame, check input json.''"

text \<open>Line 69.\<close>

definition match_criteria :: "space_point \<Rightarrow> row \<Rightarrow> bool" where
  "match_criteria sp r =
     (cell_is ''date'' (Str (sp_date sp)) r \<and> cell_is ''lat'' (Num (latitude sp)) r
      \<and> cell_is ''long'' (Num (longitude sp)) r)"

text \<open>Lines 63 to 94, the body of the loop over the space points; the state is \<^verbatim>\<open>(veg_df, i)\<close>.\<close>

definition space_point_step :: "string \<Rightarrow> space_point \<Rightarrow> dataframe \<times> nat \<Rightarrow> error + dataframe \<times> nat" where
  "space_point_step collection_name sp st =
     (case st of (veg_df, i) \<Rightarrow>
        (let matched_indices = matched_indices_of (match_criteria sp) veg_df in
         if length matched_indices = 0 then
           Inr (loc_set i (collection_name @ ''_offset50'') (Num (offset50 sp))
                  (loc_set i ''long'' (Num (longitude sp))
                     (loc_set i ''lat'' (Num (latitude sp))
                        (loc_set i ''date'' (Str (sp_date sp)) veg_df))), i + 1)
         else if length matched_indices = 1 then
           Inr (loc_set (hd matched_indices) (collection_name @ ''_offset50'') (Num (offset50 sp)) veg_df, i)
         else Inl build_error))"

text \<open>Lines 54 to 61.\<close>

definition veg_time_point_step ::
  "string \<Rightarrow> string \<times> (string \<times> space_point) list option \<Rightarrow> dataframe \<times> nat \<Rightarrow> error + dataframe \<times> nat" where
  "veg_time_point_step collection_name item st =
     (case snd item of
        None \<Rightarrow> Inr st
      | Some time_point \<Rightarrow> fold_err (\<lambda>kv. space_point_step collection_name (snd kv)) time_point st)"

text \<open>Lines 47 to 54: a collection that is not of type \<^verbatim>\<open>vegetation\<close> is skipped.\<close>

definition veg_collection_step :: "string \<times> collection \<Rightarrow> dataframe \<times> nat \<Rightarrow> error + dataframe \<times> nat" where
  "veg_collection_step item st =
     (case item of (collection_name, coll_results) \<Rightarrow>
        (case coll_results of
           Other tsd \<Rightarrow> Inr st
         | Vegetation tsd \<Rightarrow> fold_err (veg_time_point_step collection_name) tsd st))"

text \<open>Lines 108 to 140, the body of the loop over the dates; the state is \<^verbatim>\<open>(weather_df, i)\<close>.\<close>

definition weather_step ::
  "string \<times> (string \<times> cell) list option \<Rightarrow> dataframe \<times> nat \<Rightarrow> error + dataframe \<times> nat" where
  "weather_step item st =
     (case st of (weather_df, i) \<Rightarrow>
        (case item of (date, vs) \<Rightarrow>
           (case vs of
              None \<Rightarrow> Inr st
            | Some values \<Rightarrow>
                (let matched_indices = matched_indices_of (cell_is ''date'' (Str date)) weather_df in
                 if length matched_indices = 0 then
                   Inr (fold (\<lambda>kv df. loc_set i (fst kv) (snd kv) (loc_set i ''date'' (Str date) df))
                          values weather_df, i + 1)
                 else if length matched_indices = 1 then
                   Inr (fold (\<lambda>kv df. loc_set (hd matched_indices) (fst kv) (snd kv) df)
                          values weather_df, i)
                 else Inl build_error))))"

text \<open>Lines 101 to 108: a collection of type \<^verbatim>\<open>vegetation\<close> is skipped.\<close>

definition weather_collection_step :: "string \<times> collection \<Rightarrow> dataframe \<times> nat \<Rightarrow> error + dataframe \<times> nat" where
  "weather_collection_step item st =
     (case item of (collection_name, coll_results) \<Rightarrow>
        (case coll_results of
           Vegetation tsd \<Rightarrow> Inr st
         | Other tsd \<Rightarrow> fold_err weather_step tsd st))"

text \<open>
  Line 143, \<^verbatim>\<open>pd.merge(left, right, on=key, how='outer')\<close>. A column other than the key
  that both tables have is renamed with the suffixes \<^verbatim>\<open>_x\<close> and \<^verbatim>\<open>_y\<close>. Every left row
  is paired with each right row of the same key, or kept alone; the right rows that no
  left row matched follow. The library then orders the rows by key; no statement below
  depends on the order of the rows.
\<close>

definition pairs_outer :: "string \<Rightarrow> row list \<Rightarrow> row list \<Rightarrow> (row option \<times> row option) list" where
  "pairs_outer on ls rs =
     concat (map (\<lambda>l. let ms = filter (\<lambda>r. map_of r on = map_of l on) rs in
                        if ms = [] then [(Some l, None)] else map (\<lambda>r. (Some l, Some r)) ms) ls)
     @ map (\<lambda>r. (None, Some r)) (filter (\<lambda>r. map_of r on \<notin> set (map (\<lambda>l. map_of l on) ls)) rs)"

definition merged_row :: "string \<Rightarrow> string list \<Rightarrow> string list \<Rightarrow> row option \<times> row option \<Rightarrow> row" where
  "merged_row on lcols rcols p =
     (let overlap = (\<lambda>c. c \<noteq> on \<and> c \<in> set lcols \<and> c \<in> set rcols);
          left_cells = (\<lambda>l. map (\<lambda>(c, v). (if overlap c then c @ ''_x'' else c, v)) l);
          right_cells = (\<lambda>r. map (\<lambda>(c, v). (if overlap c then c @ ''_y'' else c, v))
                                 (filter (\<lambda>(c, v). c \<noteq> on) r))
      in case p of
           (Some l, Some r) \<Rightarrow> left_cells l @ right_cells r
         | (Some l, None) \<Rightarrow> left_cells l
         | (None, Some r) \<Rightarrow> filter (\<lambda>(c, v). c = on) r @ right_cells r
         | (None, None) \<Rightarrow> [])"

definition merge_outer :: "string \<Rightarrow> dataframe \<Rightarrow> dataframe \<Rightarrow> dataframe" where
  "merge_outer on left right =
     (let lcols = columns left; rcols = columns right;
          overlap = (\<lambda>c. c \<noteq> on \<and> c \<in> set lcols \<and> c \<in> set rcols)
      in \<lparr>columns = map (\<lambda>c. if overlap c then c @ ''_x'' else c) lcols
                      @ map (\<lambda>c. if overlap c then c @ ''_y'' else c) (filter (\<lambda>c. c \<noteq> on) rcols),
          rows = enumerate 0 (map (merged_row on lcols rcols)
                   (pairs_outer on (map snd (rows left)) (map snd (rows right))))\<rparr>)"

text \<open>
  Lines 146 to 148: \<^verbatim>\<open>df.lat\<close> and \<^verbatim>\<open>df.long\<close> need their columns; the point of a row has
  a missing coordinate where the cell is missing.
\<close>

definition num_of :: "cell option \<Rightarrow> real option" where
  "num_of c = (case c of Some (Num x) \<Rightarrow> Some x | _ \<Rightarrow> None)"

definition attach_geometry :: "dataframe \<Rightarrow> error + dataframe" where
  "attach_geometry df =
     (if ''lat'' \<in> set (columns df) \<and> ''long'' \<in> set (columns df) then
        Inr \<lparr>columns = (if ''geometry'' \<in> set (columns df) then columns df else columns df @ [''geometry'']),
             rows = map (\<lambda>(l, r). (l, dict_set ''geometry''
                                        (Geom (num_of (map_of r ''lat''), num_of (map_of r ''long''))) r))
                        (rows df)\<rparr>
      else Inl AttributeError)"

text \<open>Lines 39 to 94 and 96 to 140: the two tables built from the document.\<close>

definition vegetation_table :: "document \<Rightarrow> error + dataframe \<times> nat" where
  "vegetation_table data = fold_err veg_collection_step data (DataFrame [''date'', ''lat'', ''long''], 0)"

definition weather_table :: "document \<Rightarrow> error + dataframe \<times> nat" where
  "weather_table data = fold_err weather_collection_step data (DataFrame [''date''], 0)"

definition read_json_to_dataframe :: "document filesystem \<Rightarrow> string \<Rightarrow> error + dataframe" where
  "read_json_to_dataframe fs filename =
     (case fs filename of
        None \<Rightarrow> Inl (FileNotFoundError [])
      | Some data \<Rightarrow>
          (case vegetation_table data of
             Inl e \<Rightarrow> Inl e
           | Inr (veg_df, i) \<Rightarrow>
               (case weather_table data of
                  Inl e \<Rightarrow> Inl e
                | Inr (weather_df, j) \<Rightarrow> attach_geometry (merge_outer ''date'' veg_df weather_df))))"

definition doc1 :: document where
  "doc1 =
     [(''COPERNICUS/S2'', Vegetation
         [(''2020-01-01'', Some [(''0'', \<lparr>sp_date = ''2020-01-01'', latitude = 0, longitude = 0, offset50 = 1\<rparr>),
                                 (''1'', \<lparr>sp_date = ''2020-01-01'', latitude = 0, longitude = 1, offset50 = 3\<rparr>)]),
          (''2020-02-01'', None)]),
      (''LANDSAT/LC08'', Vegetation
         [(''2020-01-01'', Some [(''0'', \<lparr>sp_date = ''2020-01-01'', latitude = 0, longitude = 0, offset50 = 5\<rparr>)]),
          (''2020-02-01'', Some [(''0'', \<lparr>sp_date = ''2020-02-01'', latitude = 0, longitude = 0, offset50 = 7\<rparr>)])]),
      (''ECMWF/ERA5/MONTHLY'', Other
         [(''2020-01-01'', Some [(''total_precipitation'', Num 2)]),
          (''2020-03-01'', Some [(''total_precipitation'', Num 4)])])]"

text \<open>Python's \<^verbatim>\<open>s.startswith(p)\<close> and \<^verbatim>\<open>sub in s\<close> on strings.\<close>

fun starts_with :: "string \<Rightarrow> string \<Rightarrow> bool" where
  "starts_with s [] = True"
| "starts_with [] (p # ps) = False"
| "starts_with (c # cs) (p # ps) = (c = p \<and> starts_with cs ps)"

fun py_in :: "string \<Rightarrow> string \<Rightarrow> bool" where
  "py_in sub [] = (sub = [])"
| "py_in sub (c # cs) = (starts_with (c # cs) sub \<or> py_in sub cs)"

text \<open>
  The check of the command-line entry point (\<^verbatim>\<open>analyse_gee_data.main\<close>, lines 60 to 62),
  with \<^verbatim>\<open>os.path.abspath\<close> as a parameter and \<^verbatim>\<open>os.path.join\<close> on two components.
\<close>

definition path_join :: "string \<Rightarrow> string \<Rightarrow> string" where
  "path_join a b =
     (if starts_with b ''/'' then b
      else if a = [] \<or> last a = CHR ''/'' then a @ b
      else a @ ''/'' @ b)"

definition main_check :: "(string \<Rightarrow> string) \<Rightarrow> 'd filesystem \<Rightarrow> string \<Rightarrow> error + string" where
  "main_check abspath fs input_dir =
     (let json_summary_path = path_join input_dir ''results_summary.json'' in
      if fs json_summary_path = None then
        Inl (FileNotFoundError (''Could not find file '' @ [CHR 0x22] @ abspath json_summary_path @ [CHR 0x22] @ ''.''))
      else Inr json_summary_path)"

definition doc_dup :: document where
  "doc_dup =
     [(''ECMWF/ERA5/MONTHLY'', Other
         [(''2020-01-01'', Some [(''date'', Str ''2020-03-01'')]),
          (''2020-02-01'', Some [(''date'', Str ''2020-03-01'')]),
          (''2020-03-01'', Some [(''total_precipitation'', Num 4)])])]"

text \<open>The weather table after the first two dates of \<^verbatim>\<open>doc_dup\<close>.\<close>

definition wdf2 :: dataframe where
  "wdf2 = \<lparr>columns = [''date''],
           rows = [(0, [(''date'', Str ''2020-03-01'')]), (1, [(''date'', Str ''2020-03-01'')])]\<rparr>"

definition flat_entry :: "(string \<times> json) list" where
  "flat_entry = [(''total_precipitation'', JNum 2)]"

definition space_entry :: "(string \<times> json) list" where
  "space_entry = [(''0'', JObj [(''date'', JStr ''2020-01-01''), (''offset50'', JNum 1)]),
                  (''1'', JObj [(''date'', JStr ''2020-01-01''), (''offset50'', JNum 3)])]"

definition mixed_items :: "(string \<times> json) list" where
  "mixed_items = [(''0'', JObj [(''offset50'', JNum 1)]), (''1'', JNum 2)]"

text \<open>A document whose one entry has a mapping as its first value and a number as its second.\<close>

definition doc_mixed :: json where
  "doc_mixed = JObj
     [(''COPERNICUS/S2'', JObj [(''time-series-data'', JObj [(''2020-01-01'', JObj mixed_items)])])]"


subsection \<open>The vegetation table, row by row\<close>

text \<open>
  The uniqueness key of a row and of a record: the cells, or the fields, \<^verbatim>\<open>date\<close>,
  \<^verbatim>\<open>lat\<close> and \<^verbatim>\<open>long\<close>.
\<close>

type_synonym key = "cell option \<times> cell option \<times> cell option"

definition row_key :: "row \<Rightarrow> key" where
  "row_key r = (map_of r ''date'', map_of r ''lat'', map_of r ''long'')"

definition sp_key :: "space_point \<Rightarrow> key" where
  "sp_key sp = (Some (Str (sp_date sp)), Some (Num (latitude sp)), Some (Num (longitude sp)))"

text \<open>
  The vegetation records of a document in the order in which the loops of lines 47 to 61
  visit them, each with the name of its collection.
\<close>

definition veg_records :: "document \<Rightarrow> (string \<times> space_point) list" where
  "veg_records data =
     concat (map (\<lambda>(collection_name, coll_results).
        case coll_results of
          Other tsd \<Rightarrow> []
        | Vegetation tsd \<Rightarrow>
            concat (map (\<lambda>(date, time_point).
              case time_point of
                None \<Rightarrow> []
              | Some sps \<Rightarrow> map (\<lambda>(k, sp). (collection_name, sp)) sps) tsd)) data)"

definition record_step :: "string \<times> space_point \<Rightarrow> dataframe \<times> nat \<Rightarrow> error + dataframe \<times> nat" where
  "record_step rec st = space_point_step (fst rec) (snd rec) st"

text \<open>
  The union of the metric columns of the records that share a key: column \<^verbatim>\<open>c\<close> of the
  row of key \<^verbatim>\<open>k\<close> holds the \<^verbatim>\<open>offset50\<close> of the last record of that key whose
  collection names the column, and is missing when there is no such record.
\<close>

definition metric_cell :: "(string \<times> space_point) list \<Rightarrow> key \<Rightarrow> string \<Rightarrow> cell option" where
  "metric_cell recs k c =
     (let xs = filter (\<lambda>(collection_name, sp). sp_key sp = k \<and> collection_name @ ''_offset50'' = c) recs
      in if xs = [] then None else Some (Num (offset50 (snd (last xs)))))"

text \<open>
  The effect of one record on the rows of the table, labels left out: the row of the
  record's key gets the metric cell, or a new row is appended.
\<close>

definition new_row :: "string \<Rightarrow> space_point \<Rightarrow> row" where
  "new_row collection_name sp =
     [(''date'', Str (sp_date sp)), (''lat'', Num (latitude sp)), (''long'', Num (longitude sp)),
      (collection_name @ ''_offset50'', Num (offset50 sp))]"

definition rows_step :: "string \<times> space_point \<Rightarrow> row list \<Rightarrow> row list" where
  "rows_step rec rs =
     (case rec of (collection_name, sp) \<Rightarrow>
        if sp_key sp \<in> set (map row_key rs)
        then map (\<lambda>r. if row_key r = sp_key sp
                        then dict_set (collection_name @ ''_offset50'') (Num (offset50 sp)) r else r) rs
        else rs @ [new_row collection_name sp])"

text \<open>The state of the vegetation loop: labels \<^verbatim>\<open>0..i-1\<close> in order, keys distinct.\<close>

definition veg_inv :: "dataframe \<times> nat \<Rightarrow> bool" where
  "veg_inv st = (map fst (rows (fst st)) = [0..<snd st] \<and> distinct (map (row_key \<circ> snd) (rows (fst st))))"

definition rows_ok :: "(string \<times> space_point) list \<Rightarrow> row list \<Rightarrow> bool" where
  "rows_ok recs rs =
     (distinct (map row_key rs) \<and> set (map row_key rs) = set (map (sp_key \<circ> snd) recs)
      \<and> (\<forall>r \<in> set rs. \<forall>c. c \<notin> {''date'', ''lat'', ''long''} \<longrightarrow>
            map_of r c = metric_cell recs (row_key r) c))"

subsection \<open>The outer join, pair by pair\<close>

text \<open>The key of a pair of rows, and the number of rows of a table under a key.\<close>

definition pair_key :: "string \<Rightarrow> row option \<times> row option \<Rightarrow> cell option" where
  "pair_key on p =
     (case p of
        (Some l, r) \<Rightarrow> map_of l on
      | (None, Some r) \<Rightarrow> map_of r on
      | (None, None) \<Rightarrow> None)"

definition count_key :: "string \<Rightarrow> cell option \<Rightarrow> row list \<Rightarrow> nat" where
  "count_key on k rs = length (filter (\<lambda>r. map_of r on = k) rs)"

text \<open>The pairs that one left row gives.\<close>

definition left_block :: "string \<Rightarrow> row list \<Rightarrow> row \<Rightarrow> (row option \<times> row option) list" where
  "left_block on rs l =
     (let ms = filter (\<lambda>r. map_of r on = map_of l on) rs in
      if ms = [] then [(Some l, None)] else map (\<lambda>r. (Some l, Some r)) ms)"

text \<open>A table whose rows have cells only in its columns.\<close>

definition well_formed :: "dataframe \<Rightarrow> bool" where
  "well_formed df = (set (concat (map (\<lambda>r. map fst (snd r)) (rows df))) \<subseteq> set (columns df))"

text \<open>The two tables of \<^verbatim>\<open>doc1\<close>.\<close>

definition veg1 :: dataframe where
  "veg1 = \<lparr>columns = [''date'', ''lat'', ''long'', ''COPERNICUS/S2_offset50'', ''LANDSAT/LC08_offset50''],
           rows = [(0, [(''date'', Str ''2020-01-01''), (''lat'', Num 0), (''long'', Num 0),
                        (''COPERNICUS/S2_offset50'', Num 1), (''LANDSAT/LC08_offset50'', Num 5)]),
                   (1, [(''date'', Str ''2020-01-01''), (''lat'', Num 0), (''long'', Num 1),
                        (''COPERNICUS/S2_offset50'', Num 3)]),
                   (2, [(''date'', Str ''2020-02-01''), (''lat'', Num 0), (''long'', Num 0),
                        (''LANDSAT/LC08_offset50'', Num 7)])]\<rparr>"

definition weather1 :: dataframe where
  "weather1 = \<lparr>columns = [''date'', ''total_precipitation''],
               rows = [(0, [(''date'', Str ''2020-01-01''), (''total_precipitation'', Num 2)]),
                       (1, [(''date'', Str ''2020-03-01''), (''total_precipitation'', Num 4)])]\<rparr>"

section \<open>Temporal aggregation: \<^verbatim>\<open>make_time_series\<close>\<close>

text \<open>
  A table with a \<^verbatim>\<open>date\<close> column and numeric columns: its numeric column names, and for
  every row its date and its numeric cells by column name; a cell that is not in the list
  is missing.
\<close>

record ts_frame =
  ts_columns :: "string list"
  ts_rows :: "(string \<times> (string \<times> real) list) list"

text \<open>The values of a column in a group of rows; the aggregations skip missing cells.\<close>

definition column_values :: "string \<Rightarrow> (string \<times> (string \<times> real) list) list \<Rightarrow> real list" where
  "column_values c rs = List.map_filter (\<lambda>r. map_of (snd r) c) rs"

text \<open>The mean, and the sample standard deviation, which is missing for fewer than two values.\<close>

definition mean_of :: "real list \<Rightarrow> real option" where
  "mean_of xs = (if xs = [] then None else Some (sum_list xs / real (length xs)))"

definition std_of :: "real list \<Rightarrow> real option" where
  "std_of xs =
     (if length xs \<le> 1 then None
      else Some (sqrt (sum_list (map (\<lambda>x. (x - sum_list xs / real (length xs))\<^sup>2) xs)
                        / real (length xs - 1))))"

text \<open>\<^verbatim>\<open>df.groupby('date')\<close>: the groups, by sorted date.\<close>

definition groupby_date :: "ts_frame \<Rightarrow> (string \<times> (string \<times> (string \<times> real) list) list) list" where
  "groupby_date df =
     map (\<lambda>d. (d, filter (\<lambda>r. fst r = d) (ts_rows df))) (sort (remdups (map fst (ts_rows df))))"

text \<open>\<^verbatim>\<open>groups.mean()\<close> and \<^verbatim>\<open>groups.std()\<close>: one row per date, every numeric column aggregated.\<close>

definition aggregate :: "(real list \<Rightarrow> real option) \<Rightarrow> ts_frame \<Rightarrow> ts_frame" where
  "aggregate f df =
     \<lparr>ts_columns = ts_columns df,
      ts_rows = map (\<lambda>(d, rs). (d, List.map_filter (\<lambda>c. map_option (Pair c) (f (column_values c rs)))
                                      (ts_columns df)))
                    (groupby_date df)\<rparr>"

text \<open>\<^verbatim>\<open>rename(columns={old: new})\<close>.\<close>

definition rename_column :: "string \<Rightarrow> string \<Rightarrow> ts_frame \<Rightarrow> ts_frame" where
  "rename_column old new df =
     \<lparr>ts_columns = map (\<lambda>c. if c = old then new else c) (ts_columns df),
      ts_rows = map (\<lambda>(d, cells). (d, map (\<lambda>(c, v). (if c = old then new else c, v)) cells)) (ts_rows df)\<rparr>"

text \<open>\<^verbatim>\<open>df[[c]]\<close>: the columns of that name, \<^verbatim>\<open>KeyError\<close> when there is none.\<close>

definition select_column :: "string \<Rightarrow> ts_frame \<Rightarrow> error + ts_frame" where
  "select_column c df =
     (if c \<in> set (ts_columns df) then
        Inr \<lparr>ts_columns = filter (\<lambda>c'. c' = c) (ts_columns df),
             ts_rows = map (\<lambda>(d, cells). (d, filter (\<lambda>(c', v). c' = c) cells)) (ts_rows df)\<rparr>
      else Inl (KeyError c))"

text \<open>
  \<^verbatim>\<open>pd.merge(left, right, on='date', how='inner')\<close> of two tables indexed by date: a column
  name that both tables have gets the suffixes \<^verbatim>\<open>_x\<close> and \<^verbatim>\<open>_y\<close>.
\<close>

definition merge_inner_date :: "ts_frame \<Rightarrow> ts_frame \<Rightarrow> ts_frame" where
  "merge_inner_date left right =
     (let overlap = (\<lambda>c. c \<in> set (ts_columns left) \<and> c \<in> set (ts_columns right));
          lname = (\<lambda>c. if overlap c then c @ ''_x'' else c);
          rname = (\<lambda>c. if overlap c then c @ ''_y'' else c)
      in \<lparr>ts_columns = map lname (ts_columns left) @ map rname (ts_columns right),
          ts_rows = concat (map (\<lambda>(d, lcells).
                       map (\<lambda>(d', rcells). (d, map (\<lambda>(c, v). (lname c, v)) lcells
                                                 @ map (\<lambda>(c, v). (rname c, v)) rcells))
                           (filter (\<lambda>(d', rcells). d' = d) (ts_rows right)))
                     (ts_rows left))\<rparr>)"

text \<open>Line 259: the collections that are treated as vegetation.\<close>

definition is_vegetation_name :: "string \<Rightarrow> bool" where
  "is_vegetation_name col_name = (col_name = ''COPERNICUS/S2'' \<or> py_in ''LANDSAT'' col_name)"

text \<open>Lines 262 to 273, the table that replaces a vegetation table.\<close>

definition time_series_of :: "ts_frame \<Rightarrow> error + ts_frame" where
  "time_series_of df =
     (let means = aggregate mean_of df;
          stds = aggregate std_of df;
          stds1 = rename_column ''offset50'' ''offset50_std'' stds
      in case select_column ''offset50_std'' stds1 of
           Inl e \<Rightarrow> Inl e
         | Inr stds2 \<Rightarrow> Inr (merge_inner_date means stds2))"

text \<open>Lines 256 to 276: the loop over the collections; the first error ends it.\<close>

fun make_time_series :: "(string \<times> ts_frame) list \<Rightarrow> error + (string \<times> ts_frame) list" where
  "make_time_series [] = Inr []"
| "make_time_series ((col_name, df) # dfs) =
     (if is_vegetation_name col_name then
        (case time_series_of df of
           Inl e \<Rightarrow> Inl e
         | Inr df' \<Rightarrow>
             (case make_time_series dfs of Inl e \<Rightarrow> Inl e | Inr dfs' \<Rightarrow> Inr ((col_name, df') # dfs')))
      else (case make_time_series dfs of Inl e \<Rightarrow> Inl e | Inr dfs' \<Rightarrow> Inr ((col_name, df) # dfs')))"

text \<open>
  An input table with two metrics: two sub-locations on two dates, rows in no date order,
  the second metric missing in one row, and a date with a single row.
\<close>

definition ts1 :: ts_frame where
  "ts1 = \<lparr>ts_columns = [''offset50'', ''ndvi''],
          ts_rows = [(''2020-02-01'', [(''offset50'', 2), (''ndvi'', 6)]),
                     (''2020-01-01'', [(''offset50'', 1), (''ndvi'', 5)]),
                     (''2020-01-01'', [(''offset50'', 3), (''ndvi'', 5)]),
                     (''2020-02-01'', [(''offset50'', 4)]),
                     (''2020-03-01'', [(''offset50'', 9)])]\<rparr>"

text \<open>The cells of an aggregated row: the means of the columns, then the one kept deviation.\<close>

definition mean_cells :: "string list \<Rightarrow> (string \<times> (string \<times> real) list) list \<Rightarrow> (string \<times> real) list" where
  "mean_cells cols rs = List.map_filter (\<lambda>c. map_option (Pair c) (mean_of (column_values c rs))) cols"

definition std_cells :: "(string \<times> (string \<times> real) list) list \<Rightarrow> (string \<times> real) list" where
  "std_cells rs = (case std_of (column_values ''offset50'' rs) of None \<Rightarrow> [] | Some s \<Rightarrow> [(''offset50_std'', s)])"

text \<open>The table that \<^verbatim>\<open>ts1\<close> is aggregated to.\<close>

definition ts1_out :: ts_frame where
  "ts1_out = \<lparr>ts_columns = [''offset50'', ''ndvi'', ''offset50_std''],
              ts_rows = [(''2020-01-01'', [(''offset50'', 2), (''ndvi'', 5), (''offset50_std'', sqrt 2)]),
                         (''2020-02-01'', [(''offset50'', 3), (''ndvi'', 6), (''offset50_std'', sqrt 2)]),
                         (''2020-03-01'', [(''offset50'', 9)])]\<rparr>"

section \<open>Properties of the clustering loop\<close>

lemma length_distances_of: "length (distances_of geoms cats n) = length geoms"
  by (simp add: distances_of_def)

lemma thirds_distances_of: "t \<in> set (distances_of geoms cats n) \<Longrightarrow> snd (snd t) = cats ! n"
  by (auto simp: distances_of_def)

lemma candidates_noop:
  assumes "cats ! n = unassigned"
  shows "candidates geoms cats n = sort_key (\<lambda>t. fst (snd t)) (distances_of geoms cats n)"
proof -
  have "\<forall>t \<in> set (sort_key (\<lambda>t. fst (snd t)) (distances_of geoms cats n)). snd (snd t) = unassigned"
    using assms by (auto dest: thirds_distances_of)
  then show ?thesis unfolding candidates_def by (simp del: set_sort)
qed

lemma distances_of_upt:
  "distances_of geoms cats n =
     map (\<lambda>i. (i, distance (geoms ! i) (geoms ! n), cats ! n)) [0..<length geoms]"
  by (rule nth_equalityI) (simp_all add: distances_of_def nth_enumerate_eq)

lemma distance_nonneg: "0 \<le> distance p q"
  by (simp add: distance_def)

lemma distance_self: "distance p p = 0"
  by (simp add: distance_def)

lemma fold_max_mem: "fold max ds (d::real) \<in> set (d # ds)"
  by (induction ds arbitrary: d) (auto simp: max_def)

lemma np_max_Inr: "ds \<noteq> [] \<Longrightarrow> \<exists>m. np_max ds = Inr m \<and> m \<in> set ds"
  using fold_max_mem by (cases ds) (auto simp: np_max_def)

lemma np_max_Nil: "np_max [] = Inl ValueError"
  by (simp add: np_max_def)

lemma np_unique_Nil_iff: "np_unique ds = [] \<longleftrightarrow> ds = []"
  by (metis np_unique_def length_0_conv length_sort remdups_eq_nil_iff)

lemma set_np_unique: "set (np_unique ds) = set ds"
  by (simp add: np_unique_def)

lemma py_slice_to_subset: "set (py_slice_to k xs) \<subseteq> set xs"
  by (auto simp: py_slice_to_def dest: in_set_takeD)

lemma py_slice_to_nonempty: "1 \<le> k \<Longrightarrow> xs \<noteq> [] \<Longrightarrow> py_slice_to k xs \<noteq> []"
  by (auto simp: py_slice_to_def)

lemma py_slice_to_zero: "py_slice_to 0 xs = []"
  by (simp add: py_slice_to_def)

lemma loc_assign_length: "length (loc_assign is v cats) = length cats"
  unfolding loc_assign_def by (induction "is" arbitrary: cats) simp_all

lemma loc_assign_nth:
  "i < length cats \<Longrightarrow> loc_assign is v cats ! i = (if i \<in> set is then v else cats ! i)"
  unfolding loc_assign_def
proof (induction "is" arbitrary: cats)
  case Nil then show ?case by simp
next
  case (Cons j js)
  then show ?case by (auto simp: nth_list_update)
qed

lemma cand_props:
  assumes n: "n < length geoms" and u: "cats ! n = unassigned"
  shows "candidates geoms cats n \<noteq> []"
    and "(n, 0, unassigned) \<in> set (candidates geoms cats n)"
    and "\<forall>t \<in> set (candidates geoms cats n). 0 \<le> fst (snd t) \<and> fst t < length geoms"
proof -
  have c: "set (candidates geoms cats n) = set (distances_of geoms cats n)"
    by (simp add: candidates_noop [OF u])
  have "length (candidates geoms cats n) = length geoms"
    by (simp add: candidates_noop [OF u] length_distances_of)
  with n show "candidates geoms cats n \<noteq> []" by auto
  show "(n, 0, unassigned) \<in> set (candidates geoms cats n)"
  proof -
    have "(n, 0, unassigned) = (\<lambda>i. (i, distance (geoms ! i) (geoms ! n), cats ! n)) n"
      using u by (simp add: distance_self)
    moreover have "n \<in> set [0..<length geoms]" using n by simp
    ultimately show ?thesis unfolding c distances_of_upt set_map by (rule image_eqI)
  qed
  show "\<forall>t \<in> set (candidates geoms cats n). 0 \<le> fst (snd t) \<and> fst t < length geoms"
    unfolding c distances_of_upt by (auto simp: distance_nonneg)
qed

lemma max_dist_of_Inr:
  assumes "1 \<le> side_square" and "ds \<noteq> []"
  shows "\<exists>m. max_dist_of side_square ds = Inr m \<and> m \<in> set (map (\<lambda>t. fst (snd t)) ds)"
proof -
  define u where "u = np_unique (map (\<lambda>t. fst (snd t)) ds)"
  define sl where "sl = py_slice_to (2 * side_square) u"
  have "u \<noteq> []" using assms(2) by (simp add: u_def np_unique_Nil_iff)
  moreover have "1 \<le> 2 * side_square" using assms(1) by simp
  ultimately have "sl \<noteq> []" unfolding sl_def by (rule py_slice_to_nonempty [rotated])
  from np_max_Inr [OF this] obtain m where m1: "np_max sl = Inr m" and m2: "m \<in> set sl"
    by (elim exE conjE)
  have "set sl \<subseteq> set u" unfolding sl_def by (rule py_slice_to_subset)
  with m2 have "m \<in> set u" by (rule rev_subsetD)
  then have m3: "m \<in> set (map (\<lambda>t. fst (snd t)) ds)" unfolding u_def by (simp only: set_np_unique)
  have "max_dist_of side_square ds = Inr m"
    unfolding max_dist_of_def using m1 by (simp only: sl_def u_def)
  with m3 show ?thesis by (intro exI conjI)
qed

lemma max_dist_of_zero: "max_dist_of 0 ds = Inl ValueError"
  by (simp add: max_dist_of_def py_slice_to_zero np_max_Nil)

lemma coarse_step_ok:
  assumes s: "1 \<le> side_square" and n: "n < length geoms" and l: "length cats = length geoms"
  shows "\<exists>cats' c'. coarse_step geoms side_square n (cats, c) = Inr (cats', c')
           \<and> length cats' = length cats
           \<and> cats' ! n \<noteq> unassigned
           \<and> (\<forall>i < length cats. cats ! i \<noteq> unassigned \<longrightarrow> cats' ! i \<noteq> unassigned)
           \<and> (\<forall>i < length cats. cats' ! i = cats ! i \<or> (\<exists>s. cats' ! i = StrCat s))"
proof (cases "cats ! n = unassigned")
  case False
  then show ?thesis by (simp add: coarse_step_def)
next
  case True
  let ?ds = "candidates geoms cats n"
  from cand_props [OF n True] have ne: "?ds \<noteq> []" and self: "(n, 0, unassigned) \<in> set ?ds"
    and nonneg: "\<forall>t \<in> set ?ds. 0 \<le> fst (snd t) \<and> fst t < length geoms" by blast+
  from max_dist_of_Inr [OF s ne] obtain m where
    m: "max_dist_of side_square ?ds = Inr m" and mm: "m \<in> set (map (\<lambda>t. fst (snd t)) ?ds)" by blast
  from mm nonneg have "0 \<le> m" by auto
  with self have "(n, 0, unassigned) \<in> set (filter (\<lambda>t. fst (snd t) \<le> m) ?ds)"
    by simp
  then have "fst (n, 0::real, unassigned) \<in> fst ` set (filter (\<lambda>t. fst (snd t) \<le> m) ?ds)"
    by (rule imageI)
  then have nin: "n \<in> set (indexes_of m ?ds)"
    by (simp add: indexes_of_def)
  let ?v = "StrCat (str_nat c)"
  let ?cats' = "loc_assign (indexes_of m ?ds) ?v cats"
  have step: "coarse_step geoms side_square n (cats, c) = Inr (?cats', c + 1)"
    using True m by (simp add: coarse_step_def)
  have nth: "\<And>i. i < length cats \<Longrightarrow> ?cats' ! i = (if i \<in> set (indexes_of m ?ds) then ?v else cats ! i)"
    by (rule loc_assign_nth)
  have "?cats' ! n \<noteq> unassigned" using nin n l by (simp add: nth unassigned_def)
  moreover have "\<forall>i < length cats. cats ! i \<noteq> unassigned \<longrightarrow> ?cats' ! i \<noteq> unassigned"
    by (simp add: nth unassigned_def)
  moreover have "\<forall>i < length cats. ?cats' ! i = cats ! i \<or> (\<exists>s. ?cats' ! i = StrCat s)"
    by (simp add: nth)
  ultimately show ?thesis using step by (simp add: loc_assign_length)
qed


lemma coarse_loop_ok:
  assumes s: "1 \<le> side_square"
  shows "set ns \<subseteq> {..<length geoms} \<Longrightarrow> length cats = length geoms \<Longrightarrow>
         \<exists>cats' c'. coarse_loop geoms side_square ns (cats, c) = Inr (cats', c')
           \<and> length cats' = length cats
           \<and> (\<forall>n \<in> set ns. cats' ! n \<noteq> unassigned)
           \<and> (\<forall>i < length cats. cats ! i \<noteq> unassigned \<longrightarrow> cats' ! i \<noteq> unassigned)
           \<and> (\<forall>i < length cats. cats' ! i = cats ! i \<or> (\<exists>s. cats' ! i = StrCat s))"
proof (induction ns arbitrary: cats c)
  case Nil
  then show ?case by simp
next
  case (Cons n ns)
  from Cons.prems have n: "n < length geoms" and ns: "set ns \<subseteq> {..<length geoms}" by auto
  from coarse_step_ok [OF s n Cons.prems(2), of c] obtain cats1 c1 where
    st: "coarse_step geoms side_square n (cats, c) = Inr (cats1, c1)"
    and l1: "length cats1 = length cats"
    and a1: "cats1 ! n \<noteq> unassigned"
    and p1: "\<forall>i < length cats. cats ! i \<noteq> unassigned \<longrightarrow> cats1 ! i \<noteq> unassigned"
    and k1: "\<forall>i < length cats. cats1 ! i = cats ! i \<or> (\<exists>s. cats1 ! i = StrCat s)"
    by (elim exE conjE)
  have l1': "length cats1 = length geoms" using l1 Cons.prems(2) by simp
  from Cons.IH [OF ns l1', of c1] obtain cats2 c2 where
    lp: "coarse_loop geoms side_square ns (cats1, c1) = Inr (cats2, c2)"
    and l2: "length cats2 = length cats1"
    and a2: "\<forall>n \<in> set ns. cats2 ! n \<noteq> unassigned"
    and p2: "\<forall>i < length cats1. cats1 ! i \<noteq> unassigned \<longrightarrow> cats2 ! i \<noteq> unassigned"
    and k2: "\<forall>i < length cats1. cats2 ! i = cats1 ! i \<or> (\<exists>s. cats2 ! i = StrCat s)"
    by (elim exE conjE)
  have r: "coarse_loop geoms side_square (n # ns) (cats, c) = Inr (cats2, c2)"
    using st lp by simp
  have nl: "n < length cats1" using n l1' by simp
  have A: "\<forall>m \<in> set (n # ns). cats2 ! m \<noteq> unassigned"
    using a1 a2 p2 nl by auto
  have P: "\<forall>i < length cats. cats ! i \<noteq> unassigned \<longrightarrow> cats2 ! i \<noteq> unassigned"
    using p1 p2 l1 by auto
  have K: "\<forall>i < length cats. cats2 ! i = cats ! i \<or> (\<exists>s. cats2 ! i = StrCat s)"
  proof (intro allI impI)
    fix i assume i: "i < length cats"
    from k1 i have "cats1 ! i = cats ! i \<or> (\<exists>s. cats1 ! i = StrCat s)" by simp
    moreover from k2 i l1 have "cats2 ! i = cats1 ! i \<or> (\<exists>s. cats2 ! i = StrCat s)" by simp
    ultimately show "cats2 ! i = cats ! i \<or> (\<exists>s. cats2 ! i = StrCat s)" by auto
  qed
  have L: "length cats2 = length cats" using l2 l1 by simp
  show ?case using r L A P K by (intro exI conjI)
qed

lemma coarse_categories_ok:
  assumes s: "1 \<le> side_square"
  shows "\<exists>cats. coarse_categories geoms side_square = Inr cats \<and> length cats = length geoms
           \<and> (\<forall>i < length geoms. \<exists>s. cats ! i = StrCat s)"
proof -
  let ?init = "replicate (length geoms) unassigned"
  have sub: "set [0..<length geoms] \<subseteq> {..<length geoms}" by auto
  have len: "length ?init = length geoms" by simp
  from coarse_loop_ok [OF s sub len, of 0] obtain cats c where
    lp: "coarse_loop geoms side_square [0..<length geoms] (?init, 0) = Inr (cats, c)"
    and l: "length cats = length ?init"
    and a: "\<forall>n \<in> set [0..<length geoms]. cats ! n \<noteq> unassigned"
    and k: "\<forall>i < length ?init. cats ! i = ?init ! i \<or> (\<exists>s. cats ! i = StrCat s)"
    by (elim exE conjE)
  have "\<forall>i < length geoms. \<exists>s. cats ! i = StrCat s"
  proof (intro allI impI)
    fix i assume i: "i < length geoms"
    with a have "cats ! i \<noteq> unassigned" by simp
    moreover from k i have "cats ! i = unassigned \<or> (\<exists>s. cats ! i = StrCat s)" by simp
    ultimately show "\<exists>s. cats ! i = StrCat s" by simp
  qed
  moreover have "coarse_categories geoms side_square = Inr cats"
    using lp by (simp add: coarse_categories_def)
  moreover have "length cats = length geoms" using l by simp
  ultimately show ?thesis by (intro exI conjI)
qed

lemma coarse_categories_zero:
  assumes "geoms \<noteq> []"
  shows "coarse_categories geoms 0 = Inl ValueError"
proof -
  obtain k where k: "length geoms = Suc k" using assms by (cases geoms) auto
  have "[0..<length geoms] = 0 # [1..<length geoms]" using k by (simp add: upt_rec)
  moreover have "coarse_step geoms 0 0 (replicate (length geoms) unassigned, 0) = Inl ValueError"
    using k by (simp add: coarse_step_def max_dist_of_zero)
  ultimately show ?thesis by (simp add: coarse_categories_def)
qed

lemma mset_groups:
  "distinct ks \<Longrightarrow>
   mset (concat (map (\<lambda>k. filter (\<lambda>i. f i = Some k) xs) ks)) = mset (filter (\<lambda>i. \<exists>k \<in> set ks. f i = Some k) xs)"
proof (induction ks)
  case Nil
  then show ?case by simp
next
  case (Cons k ks)
  have "mset (filter (\<lambda>i. f i = Some k) xs) + mset (filter (\<lambda>i. \<exists>k \<in> set ks. f i = Some k) xs)
        = mset (filter (\<lambda>i. \<exists>k' \<in> set (k # ks). f i = Some k') xs)"
    using Cons.prems by (induction xs) auto
  with Cons show ?case by simp
qed

lemma dissolve_partition:
  assumes "length keys = length df" and "\<forall>i < length df. keys ! i \<noteq> None"
  shows "mset (concat (map members (dissolve keys df))) = mset [0..<length df]"
proof -
  let ?ks = "remdups (List.map_filter id keys)"
  have "map members (dissolve keys df) = map (\<lambda>k. filter (\<lambda>i. keys ! i = Some k) [0..<length df]) ?ks"
    by (simp add: dissolve_def Let_def comp_def)
  then have "mset (concat (map members (dissolve keys df)))
      = mset (filter (\<lambda>i. \<exists>k \<in> set ?ks. keys ! i = Some k) [0..<length df])"
    using mset_groups [of ?ks "\<lambda>i. keys ! i" "[0..<length df]"] by simp
  also have "filter (\<lambda>i. \<exists>k \<in> set ?ks. keys ! i = Some k) [0..<length df] = [0..<length df]"
  proof (rule filter_True, clarify)
    fix i assume "i \<in> set [0..<length df]"
    then have i: "i < length df" by simp
    with assms obtain k where k: "keys ! i = Some k" by auto
    have "keys ! i \<in> set keys" using i assms(1) by simp
    with k have "k \<in> set ?ks" by (force simp: List.map_filter_def)
    with k show "\<exists>k \<in> set ?ks. keys ! i = Some k" by auto
  qed
  finally show ?thesis .
qed


lemma group_keys_Some:
  assumes "length cats = length df" and "\<forall>i < length df. \<exists>s. cats ! i = StrCat s"
  shows "length (group_keys cats df) = length df"
    and "\<forall>i < length df. group_keys cats df ! i \<noteq> None"
proof -
  show "length (group_keys cats df) = length df" using assms(1) by (simp add: group_keys_def)
  show "\<forall>i < length df. group_keys cats df ! i \<noteq> None"
  proof (intro allI impI)
    fix i assume i: "i < length df"
    with assms(2) obtain s where "cats ! i = StrCat s" by auto
    with i assms(1) show "group_keys cats df ! i \<noteq> None"
      by (simp add: group_keys_def str_cat_def)
  qed
qed

lemmas coarse_eval =
  coarse_categories_def coarse_step_def candidates_def distances_of_def distance_def
  max_dist_of_def np_unique_def np_max_def py_slice_to_def indexes_of_def loc_assign_def
  unassigned_def str_nat.simps digit_char_def upt_rec enumerate_eq_zip


lemma str_accessor_strings:
  assumes "cats \<noteq> []" and "\<forall>i < length cats. \<exists>s. cats ! i = StrCat s"
  shows "str_accessor cats = Inr cats"
proof -
  from assms obtain s where "cats ! 0 = StrCat s" by auto
  with assms(1) have "hd cats = StrCat s" by (simp add: hd_conv_nth)
  with assms(1) have "\<not> list_all is_int_cat cats"
    by (cases cats) (simp_all add: is_int_cat_def)
  then show ?thesis by (simp add: str_accessor_def)
qed

text \<open>
  On a table with no rows the loop body never runs, the \<^verbatim>\<open>category\<close> column keeps its
  integer dtype, and line 388 raises.
\<close>

lemma coarse_dataframe_no_rows: "coarse_dataframe [] side_square = Inl AttributeError"
  by (simp add: coarse_dataframe_def coarse_categories_def str_accessor_def)

text \<open>
  C1. For every table with at least one row and every \<^verbatim>\<open>side_square\<close> of at least 1, the
  loop ends without an error and leaves a string category in every row (no row keeps the
  initial \<^verbatim>\<open>-1\<close>), the function returns, and the groups of the dissolved table hold
  every row position exactly once, so the sizes of the blocks add up to the number of
  rows. A table with no rows has no row to assign and no block: there the function raises
  at line 388 before it builds any.
\<close>

theorem coarse_dataframe_partition:
  assumes "data_df \<noteq> []" and "1 \<le> side_square"
  shows "\<exists>cats blocks.
           coarse_categories (map row_geometry data_df) side_square = Inr cats
         \<and> length cats = length data_df
         \<and> (\<forall>i < length data_df. \<exists>s. cats ! i = StrCat s)
         \<and> coarse_dataframe data_df side_square = Inr blocks
         \<and> mset (concat (map members blocks)) = mset [0..<length data_df]
         \<and> sum_list (map (\<lambda>b. length (members b)) blocks) = length data_df"
proof -
  from coarse_categories_ok [OF assms(2), of "map row_geometry data_df"] obtain cats where
    c: "coarse_categories (map row_geometry data_df) side_square = Inr cats"
    and l: "length cats = length data_df"
    and a: "\<forall>i < length data_df. \<exists>s. cats ! i = StrCat s"
    by (elim exE conjE) simp
  have ne: "cats \<noteq> []" using l assms(1) by auto
  have acc: "str_accessor cats = Inr cats"
    using ne a l by (intro str_accessor_strings) simp_all
  let ?blocks = "dissolve (group_keys cats data_df) data_df"
  have d: "coarse_dataframe data_df side_square = Inr ?blocks"
    using c acc by (simp add: coarse_dataframe_def)
  have p: "mset (concat (map members ?blocks)) = mset [0..<length data_df]"
    using group_keys_Some [OF l a] by (rule dissolve_partition)
  have "sum_list (map (\<lambda>b. length (members b)) ?blocks) = length (concat (map members ?blocks))"
    by (simp add: length_concat comp_def)
  also have "\<dots> = size (mset (concat (map members ?blocks)))" by simp
  also have "\<dots> = length data_df" unfolding p by simp
  finally have n: "sum_list (map (\<lambda>b. length (members b)) ?blocks) = length data_df" .
  show ?thesis using c l a d p n by (intro exI conjI)
qed

theorem coarse_dataframe_partition_witness:
  "df3 \<noteq> [] \<and> (1::int) \<le> 1 \<and>
   (\<exists>cats blocks.
       coarse_categories (map row_geometry df3) 1 = Inr cats
     \<and> length cats = length df3
     \<and> (\<forall>i < length df3. \<exists>s. cats ! i = StrCat s)
     \<and> coarse_dataframe df3 1 = Inr blocks
     \<and> mset (concat (map members blocks)) = mset [0..<length df3]
     \<and> sum_list (map (\<lambda>b. length (members b)) blocks) = length df3)"
  using coarse_dataframe_partition [of df3 1] by (simp add: df3_def)


text \<open>
  C10. With \<^verbatim>\<open>side_square\<close> at least 1, at any iteration on a row \<^verbatim>\<open>n\<close> that is still
  unassigned the filtered candidate list is not empty and holds row \<^verbatim>\<open>n\<close> itself at
  distance 0, the maximum of line 376 is defined, and the whole loop ends without the
  \<^verbatim>\<open>ValueError\<close> of an empty maximum. With \<^verbatim>\<open>side_square = 0\<close> every non-empty table
  raises that \<^verbatim>\<open>ValueError\<close>.
\<close>

theorem coarse_max_dist_defined:
  "(1 \<le> side_square \<and> n < length geoms \<and> cats ! n = unassigned \<longrightarrow>
      candidates geoms cats n \<noteq> []
    \<and> (n, 0, unassigned) \<in> set (candidates geoms cats n)
    \<and> (\<exists>m. max_dist_of side_square (candidates geoms cats n) = Inr m))
   \<and> (1 \<le> side_square \<longrightarrow> (\<exists>cs. coarse_categories geoms side_square = Inr cs))
   \<and> (geoms \<noteq> [] \<longrightarrow> coarse_categories geoms 0 = Inl ValueError)"
proof (intro conjI impI)
  assume h: "1 \<le> side_square \<and> n < length geoms \<and> cats ! n = unassigned"
  then have n: "n < length geoms" and u: "cats ! n = unassigned" and s: "1 \<le> side_square"
    by simp_all
  show ne: "candidates geoms cats n \<noteq> []" by (rule cand_props(1) [OF n u])
  show "(n, 0, unassigned) \<in> set (candidates geoms cats n)" by (rule cand_props(2) [OF n u])
  from max_dist_of_Inr [OF s ne] obtain m where
    "max_dist_of side_square (candidates geoms cats n) = Inr m" by (elim exE conjE)
  then show "\<exists>m. max_dist_of side_square (candidates geoms cats n) = Inr m" by (rule exI)
next
  assume "1 \<le> side_square"
  from coarse_categories_ok [OF this, of geoms] obtain cs where
    "coarse_categories geoms side_square = Inr cs" by (elim exE conjE)
  then show "\<exists>cs. coarse_categories geoms side_square = Inr cs" by (rule exI)
next
  assume "geoms \<noteq> []"
  then show "coarse_categories geoms 0 = Inl ValueError" by (rule coarse_categories_zero)
qed

theorem coarse_max_dist_defined_witness:
  "(1::int) \<le> 1 \<and> (0::nat) < length pts3 \<and> replicate 3 unassigned ! 0 = unassigned
   \<and> candidates pts3 (replicate 3 unassigned) 0 \<noteq> []
   \<and> (0, 0, unassigned) \<in> set (candidates pts3 (replicate 3 unassigned) 0)
   \<and> (\<exists>m. max_dist_of 1 (candidates pts3 (replicate 3 unassigned) 0) = Inr m)
   \<and> (\<exists>cs. coarse_categories pts3 1 = Inr cs)
   \<and> pts3 \<noteq> [] \<and> coarse_categories pts3 0 = Inl ValueError"
  using coarse_max_dist_defined [of 1 0 pts3 "replicate 3 unassigned"]
  by (simp add: pts3_def)


text \<open>
  C3. On three collinear points one unit apart and \<^verbatim>\<open>side_square = 1\<close>, the first
  iteration labels rows 0 and 1 with \<^verbatim>\<open>'0'\<close>. At the iteration on row 2 the filter of
  line 373 discards nothing (every triple carries the category of row 2, which is
  \<^verbatim>\<open>-1\<close>), rows 0 and 1 stay candidates, and row 1, already labelled \<^verbatim>\<open>'0'\<close>, is
  relabelled \<^verbatim>\<open>'1'\<close>.
\<close>

theorem coarse_step_relabels_assigned_row:
  "candidates pts3 [StrCat ''0'', StrCat ''0'', unassigned] 2 =
     [(2, 0, unassigned), (1, 1, unassigned), (0, 2, unassigned)]
   \<and> coarse_step pts3 1 2 ([StrCat ''0'', StrCat ''0'', unassigned], 1) =
     Inr ([StrCat ''0'', StrCat ''1'', StrCat ''1''], 2)
   \<and> coarse_categories pts3 1 = Inr [StrCat ''0'', StrCat ''1'', StrCat ''1'']"
  by (simp add: pts3_def coarse_eval)

section \<open>Properties of the geospatial attachment\<close>

lemma assign_points:
  "assign_column (map Point (zip (map lat df) (map long df))) df
     = map (\<lambda>r. r\<lparr>geometry := Some (lat r, long r)\<rparr>) df"
  by (induction df) (simp_all add: assign_column_def Point_def)

lemma convert_result:
  "convert_to_geopandas df = (None, map (\<lambda>r. r\<lparr>geometry := Some (lat r, long r)\<rparr>) df)"
  by (simp only: convert_to_geopandas_def Let_def assign_points)

text \<open>
  The one effect of a call: the point \<^verbatim>\<open>Point(lat, long)\<close> of every row is written into
  the \<^verbatim>\<open>geometry\<close> column of the table the caller passed; the number of rows and every
  other column are unchanged, and a second call leaves the table as the first call left
  it.
\<close>

lemma geometry_written_in_place:
  "snd (convert_to_geopandas df) = map (\<lambda>r. r\<lparr>geometry := Some (lat r, long r)\<rparr>) df
   \<and> length (snd (convert_to_geopandas df)) = length df
   \<and> map lat (snd (convert_to_geopandas df)) = map lat df
   \<and> map long (snd (convert_to_geopandas df)) = map long df
   \<and> map latlong_row.more (snd (convert_to_geopandas df)) = map latlong_row.more df
   \<and> snd (convert_to_geopandas (snd (convert_to_geopandas df))) = snd (convert_to_geopandas df)"
  by (simp add: convert_result comp_def)

text \<open>
  C9. The function ends at line 234 without a \<^verbatim>\<open>return\<close>: on every table the value of
  the call is \<^verbatim>\<open>None\<close>, not the table with its geometry column. On the one-row table
  with \<^verbatim>\<open>lat = 1\<close> and \<^verbatim>\<open>long = 2\<close> the call returns \<^verbatim>\<open>None\<close> and leaves the point
  in the caller's table, which is no longer what it was.
\<close>

theorem convert_to_geopandas_returns_None:
  "fst (convert_to_geopandas df) = None
   \<and> convert_to_geopandas cg_df0 = (None, [\<lparr>lat = 1, long = 2, geometry = Some (1, 2)\<rparr>])
   \<and> snd (convert_to_geopandas cg_df0) \<noteq> cg_df0"
  by (simp add: convert_result cg_df0_def)

section \<open>Properties of the ingestion\<close>

subsection \<open>Missing input file\<close>

lemma starts_with_append: "starts_with (p @ s) p"
  by (induction p) simp_all

lemma py_in_append: "py_in sub (sub @ s)"
proof (cases "sub @ s")
  case Nil
  then show ?thesis by simp
next
  case (Cons c cs)
  have "starts_with (sub @ s) sub" by (rule starts_with_append)
  then have "starts_with (c # cs) sub" by (simp only: Cons)
  then have "py_in sub (c # cs)" by simp
  then show ?thesis by (simp only: Cons)
qed

lemma py_in_infix: "py_in sub (pre @ sub @ s)"
  by (induction pre) (simp_all add: py_in_append)

lemma main_check_message:
  assumes a: "fs (path_join input_dir ''results_summary.json'') = None"
  shows "\<exists>msg. main_check abspath fs input_dir = Inl (FileNotFoundError msg)
       \<and> py_in (abspath (path_join input_dir ''results_summary.json'')) msg"
proof -
  let ?p = "abspath (path_join input_dir ''results_summary.json'')"
  let ?msg = "(''Could not find file '' @ [CHR 0x22]) @ ?p @ ([CHR 0x22] @ ''.'')"
  have "main_check abspath fs input_dir = Inl (FileNotFoundError ?msg)"
    using a by (simp add: main_check_def)
  moreover have "py_in ?p ?msg" by (rule py_in_infix)
  ultimately show ?thesis by (intro exI conjI)
qed

text \<open>
  C7, as the code has it. At a path where no file exists both ingestion functions raise
  \<^verbatim>\<open>FileNotFoundError\<close> at their first statement, whatever else the file system holds,
  and the exception carries no message. The message with the resolved absolute path is
  that of the check the command-line entry point makes before it calls them.
\<close>

theorem missing_file_raises:
  "(fs filename = None \<longrightarrow> read_json_to_dataframe fs filename = Inl (FileNotFoundError []))
   \<and> (fs' filename = None \<longrightarrow>
        variable_read_json_to_dataframe fs' filename = Inl (FileNotFoundError []))
   \<and> (fs'' (path_join input_dir ''results_summary.json'') = None \<longrightarrow>
        (\<exists>msg. main_check abspath fs'' input_dir = Inl (FileNotFoundError msg)
            \<and> py_in (abspath (path_join input_dir ''results_summary.json'')) msg))"
proof (intro conjI impI)
  assume "fs filename = None"
  then show "read_json_to_dataframe fs filename = Inl (FileNotFoundError [])"
    by (simp add: read_json_to_dataframe_def)
next
  assume "fs' filename = None"
  then show "variable_read_json_to_dataframe fs' filename = Inl (FileNotFoundError [])"
    by (simp add: variable_read_json_to_dataframe_def)
next
  assume "fs'' (path_join input_dir ''results_summary.json'') = None"
  then show "\<exists>msg. main_check abspath fs'' input_dir = Inl (FileNotFoundError msg)
            \<and> py_in (abspath (path_join input_dir ''results_summary.json'')) msg"
    by (rule main_check_message)
qed

theorem missing_file_raises_witness:
  "(Map.empty :: document filesystem) ''results_summary.json'' = None
   \<and> read_json_to_dataframe Map.empty ''results_summary.json'' = Inl (FileNotFoundError [])
   \<and> (Map.empty :: json filesystem) ''results_summary.json'' = None
   \<and> variable_read_json_to_dataframe Map.empty ''results_summary.json'' = Inl (FileNotFoundError [])
   \<and> (Map.empty :: json filesystem) (path_join ''out'' ''results_summary.json'') = None
   \<and> (\<exists>msg. main_check (\<lambda>p. ''/data/'' @ p) (Map.empty :: json filesystem) ''out''
                 = Inl (FileNotFoundError msg)
          \<and> py_in (''/data/'' @ path_join ''out'' ''results_summary.json'') msg)"
  using missing_file_raises [of "Map.empty :: document filesystem" "''results_summary.json''"
          "Map.empty :: json filesystem" "Map.empty :: json filesystem" "''out''" "\<lambda>p. ''/data/'' @ p"]
  by simp

text \<open>
  C7 as stated fails: the exception of the two ingestion functions has the empty message,
  which holds no path.
\<close>

theorem missing_file_message_counterexample:
  "read_json_to_dataframe Map.empty ''results_summary.json'' = Inl (FileNotFoundError [])
   \<and> variable_read_json_to_dataframe Map.empty ''results_summary.json'' = Inl (FileNotFoundError [])
   \<and> \<not> py_in ''/data/results_summary.json'' []"
  by (simp add: read_json_to_dataframe_def variable_read_json_to_dataframe_def)

subsection \<open>The fatal error of the fixed-schema ingestion\<close>

lemma space_point_step_error:
  "(\<exists>m. space_point_step collection_name sp (veg_df, i) = Inl (RuntimeError m))
     \<longleftrightarrow> 1 < length (matched_indices_of (match_criteria sp) veg_df)"
proof -
  define n where "n = length (matched_indices_of (match_criteria sp) veg_df)"
  consider "n = 0" | "n = 1" | "1 < n" by arith
  then show ?thesis
    by cases (simp_all add: space_point_step_def build_error_def Let_def n_def [symmetric] del: length_0_conv)
qed

lemma weather_step_error:
  "(\<exists>m. weather_step (date, Some values) (weather_df, j) = Inl (RuntimeError m))
     \<longleftrightarrow> 1 < length (matched_indices_of (cell_is ''date'' (Str date)) weather_df)"
proof -
  define n where "n = length (matched_indices_of (cell_is ''date'' (Str date)) weather_df)"
  consider "n = 0" | "n = 1" | "1 < n" by arith
  then show ?thesis
    by cases (simp_all add: weather_step_def build_error_def Let_def n_def [symmetric] del: length_0_conv)
qed

lemma fold_err_abort:
  "fold_err f xs s = Inr s' \<Longrightarrow> f x s' = Inl e \<Longrightarrow> fold_err f (xs @ x # ys) s = Inl e"
  by (induction xs arbitrary: s) (auto split: sum.splits)

lemmas read_eval = read_json_to_dataframe_def vegetation_table_def weather_table_def
  veg_collection_step_def veg_time_point_step_def
  space_point_step_def weather_collection_step_def weather_step_def matched_indices_of_def
  match_criteria_def cell_is_def loc_set_def DataFrame_def build_error_def

text \<open>
  C6. Adding a vegetation record raises \<^verbatim>\<open>RuntimeError\<close> exactly when more than one row
  of the vegetation table matches its date, latitude and longitude; adding the metrics of
  a date raises it exactly when more than one row of the weather table matches the date
  (a date without data adds nothing and raises nothing); and an error raised by the body
  of a loop ends the loop with that error.
\<close>

theorem runtime_error_iff:
  "((\<exists>m. space_point_step collection_name sp (veg_df, i) = Inl (RuntimeError m))
      \<longleftrightarrow> 1 < length (matched_indices_of (match_criteria sp) veg_df))
   \<and> ((\<exists>m. weather_step (date, Some values) (weather_df, j) = Inl (RuntimeError m))
      \<longleftrightarrow> 1 < length (matched_indices_of (cell_is ''date'' (Str date)) weather_df))
   \<and> weather_step (date, None) (weather_df, j) = Inr (weather_df, j)
   \<and> (fold_err f xs s = Inr s' \<and> f x s' = Inl e \<longrightarrow> fold_err f (xs @ x # ys) s = Inl e)"
proof (intro conjI impI)
  show "(\<exists>m. space_point_step collection_name sp (veg_df, i) = Inl (RuntimeError m))
      \<longleftrightarrow> 1 < length (matched_indices_of (match_criteria sp) veg_df)"
    by (rule space_point_step_error)
  show "(\<exists>m. weather_step (date, Some values) (weather_df, j) = Inl (RuntimeError m))
      \<longleftrightarrow> 1 < length (matched_indices_of (cell_is ''date'' (Str date)) weather_df)"
    by (rule weather_step_error)
  show "weather_step (date, None) (weather_df, j) = Inr (weather_df, j)"
    by (simp add: weather_step_def)
next
  assume "fold_err f xs s = Inr s' \<and> f x s' = Inl e"
  then show "fold_err f (xs @ x # ys) s = Inl e" by (simp add: fold_err_abort)
qed

theorem runtime_error_iff_witness:
  "1 < length (matched_indices_of (cell_is ''date'' (Str ''2020-03-01'')) wdf2)
   \<and> (\<exists>m. weather_step (''2020-03-01'', Some [(''total_precipitation'', Num 4)]) (wdf2, 2)
           = Inl (RuntimeError m))
   \<and> fold_err weather_step
         [(''2020-01-01'', Some [(''date'', Str ''2020-03-01'')]),
          (''2020-02-01'', Some [(''date'', Str ''2020-03-01'')])] (DataFrame [''date''], 0)
       = Inr (wdf2, 2)
   \<and> weather_step (''2020-03-01'', Some [(''total_precipitation'', Num 4)]) (wdf2, 2) = Inl build_error
   \<and> fold_err weather_step
         ([(''2020-01-01'', Some [(''date'', Str ''2020-03-01'')]),
           (''2020-02-01'', Some [(''date'', Str ''2020-03-01'')])]
          @ (''2020-03-01'', Some [(''total_precipitation'', Num 4)]) # []) (DataFrame [''date''], 0)
       = Inl build_error
   \<and> read_json_to_dataframe [''results_summary.json'' \<mapsto> doc_dup] ''results_summary.json''
       = Inl build_error"
  using runtime_error_iff [of "[]" "\<lparr>sp_date = [], latitude = 0, longitude = 0, offset50 = 0\<rparr>"
          "DataFrame []" 0 "''2020-03-01''" "[(''total_precipitation'', Num 4)]" wdf2 2
          weather_step
          "[(''2020-01-01'', Some [(''date'', Str ''2020-03-01'')]),
            (''2020-02-01'', Some [(''date'', Str ''2020-03-01'')])]"
          "(DataFrame [''date''], 0)" "(wdf2, 2)"
          "(''2020-03-01'', Some [(''total_precipitation'', Num 4)])" build_error "[]"]
  by (simp add: read_eval wdf2_def doc_dup_def)

subsection \<open>The rows of a date entry\<close>

lemma map_JObj_fields: "list_all is_dict vs \<Longrightarrow> map JObj (map row_fields vs) = vs"
proof (induction vs)
  case Nil
  then show ?case by simp
next
  case (Cons v vs)
  then show ?case by (cases v) simp_all
qed

lemma time_point_step_shape:
  assumes "entry_shape time_point"
  shows "time_point_step (date, time_point) rows_list
           = Inr (rows_list @ map JObj (spec_entry_rows date time_point))"
proof (cases time_point)
  case (JObj kvs)
  show ?thesis
  proof (cases "kvs = []")
    case True
    with JObj show ?thesis by (simp add: time_point_step_def spec_entry_rows_def)
  next
    case ne: False
    show ?thesis
    proof (cases "is_dict (snd (hd kvs))")
      case True
      with assms JObj ne have all: "list_all is_dict (map snd kvs)"
        by (simp add: entry_shape_def)
      have "map JObj (map (\<lambda>kv. row_fields (snd kv)) kvs) = map snd kvs"
        using map_JObj_fields [OF all] by (simp add: comp_def)
      with JObj ne True all show ?thesis
        by (simp add: time_point_step_def spec_entry_rows_def)
    next
      case False
      with ne have "\<not> list_all is_dict (map snd kvs)" by (cases kvs) simp_all
      with JObj ne False show ?thesis
        by (simp add: time_point_step_def spec_entry_rows_def)
    qed
  qed
qed (use assms in \<open>simp_all add: entry_shape_def time_point_step_def spec_entry_rows_def\<close>)

lemma time_points_shape:
  "list_all (\<lambda>entry. entry_shape (snd entry)) entries \<Longrightarrow>
   fold_err time_point_step entries rows_list
     = Inr (rows_list @ map JObj (concat (map (\<lambda>entry. spec_entry_rows (fst entry) (snd entry)) entries)))"
proof (induction entries arbitrary: rows_list)
  case Nil
  then show ?case by simp
next
  case (Cons entry entries)
  obtain date time_point where e: "entry = (date, time_point)" by (cases entry)
  from Cons.prems e have "entry_shape time_point"
    and rest: "list_all (\<lambda>entry. entry_shape (snd entry)) entries" by simp_all
  then show ?case
    using Cons.IH [OF rest] e by (simp add: time_point_step_shape)
qed

lemma DataFrame_rows_records: "DataFrame_rows (map JObj rs) = Inr (Records rs)"
  by (cases rs) (simp_all add: DataFrame_rows_def list_all_iff comp_def)

lemma collection_step_shape:
  assumes "collection_shape coll_results"
  shows "collection_step (collection_name, coll_results) dfs
           = Inr (dict_set collection_name (spec_table coll_results) dfs)"
proof -
  from assms obtain entries where
    s: "subscript coll_results ''time-series-data'' = Inr (JObj entries)"
    and sh: "list_all (\<lambda>entry. entry_shape (snd entry)) entries"
    by (auto simp: collection_shape_def split: sum.splits json.splits)
  have t: "time_series_data coll_results = entries" using s by (simp add: time_series_data_def)
  show ?thesis
    using s t time_points_shape [OF sh, of "[]"]
    by (simp add: collection_step_def items_def spec_table_def DataFrame_rows_records)
qed

lemma collections_shape:
  "list_all (\<lambda>coll. collection_shape (snd coll)) colls \<Longrightarrow>
   fold_err collection_step colls dfs
     = Inr (fold (\<lambda>coll dfs. dict_set (fst coll) (spec_table (snd coll)) dfs) colls dfs)"
proof (induction colls arbitrary: dfs)
  case Nil
  then show ?case by simp
next
  case (Cons coll colls)
  obtain name coll_results where c: "coll = (name, coll_results)" by (cases coll)
  from Cons.prems c have "collection_shape coll_results"
    and rest: "list_all (\<lambda>coll. collection_shape (snd coll)) colls" by simp_all
  then show ?case
    using Cons.IH [OF rest] c by (simp add: collection_step_shape)
qed

lemma read_shape:
  assumes "fs filename = Some data" and "summary_shape data"
  shows "variable_read_json_to_dataframe fs filename = Inr (spec_tables data)"
proof -
  from assms(2) obtain colls where d: "data = JObj colls"
    and sh: "list_all (\<lambda>coll. collection_shape (snd coll)) colls"
    by (auto simp: summary_shape_def split: json.splits)
  show ?thesis
    using assms(1) d collections_shape [OF sh, of "[]"]
    by (simp add: variable_read_json_to_dataframe_def items_def spec_tables_def)
qed

text \<open>
  Outside that shape the function raises. The first element of \<^verbatim>\<open>rows_list\<close> is always
  a mapping, so an element that is not one makes line 212 raise.
\<close>

lemma step_head:
  assumes "time_point_step item rows_list = Inr rows'" and "rows_list = [] \<or> is_dict (hd rows_list)"
  shows "rows' = [] \<or> is_dict (hd rows')"
proof -
  obtain date time_point where i: "item = (date, time_point)" by (cases item)
  show ?thesis
  proof (cases time_point)
    case (JObj kvs)
    show ?thesis
    proof (cases "kvs = []")
      case True
      with assms i JObj show ?thesis by (simp add: time_point_step_def)
    next
      case False
      with assms i JObj show ?thesis
        by (cases rows_list; cases kvs) (auto simp: time_point_step_def split: if_splits)
    qed
  qed (use assms i in \<open>simp_all add: time_point_step_def\<close>)
qed

lemma step_keeps:
  assumes "time_point_step item rows_list = Inr rows'" and "\<not> list_all is_dict rows_list"
  shows "\<not> list_all is_dict rows'"
proof -
  obtain date time_point where i: "item = (date, time_point)" by (cases item)
  show ?thesis
    using assms i
    by (cases time_point) (auto simp: time_point_step_def split: if_splits)
qed

lemma step_outside_shape:
  assumes "time_point_step (date, time_point) rows_list = Inr rows'" and "\<not> entry_shape time_point"
  shows "\<not> list_all is_dict rows'"
  using assms
  by (cases time_point) (auto simp: time_point_step_def entry_shape_def split: if_splits)

lemma time_points_head:
  "fold_err time_point_step entries rows_list = Inr rows' \<Longrightarrow>
   rows_list = [] \<or> is_dict (hd rows_list) \<Longrightarrow> rows' = [] \<or> is_dict (hd rows')"
proof (induction entries arbitrary: rows_list)
  case Nil
  then show ?case by simp
next
  case (Cons entry entries)
  from Cons.prems(1) obtain mid where m: "time_point_step entry rows_list = Inr mid"
    and r: "fold_err time_point_step entries mid = Inr rows'"
    by (auto split: sum.splits)
  from step_head [OF m Cons.prems(2)] have "mid = [] \<or> is_dict (hd mid)" .
  with r show ?case by (rule Cons.IH)
qed

lemma time_points_outside_shape:
  "fold_err time_point_step entries rows_list = Inr rows' \<Longrightarrow>
   \<not> list_all is_dict rows_list \<or> \<not> list_all (\<lambda>entry. entry_shape (snd entry)) entries \<Longrightarrow>
   \<not> list_all is_dict rows'"
proof (induction entries arbitrary: rows_list)
  case Nil
  then show ?case by simp
next
  case (Cons entry entries)
  obtain date time_point where e: "entry = (date, time_point)" by (cases entry)
  from Cons.prems(1) obtain mid where m: "time_point_step entry rows_list = Inr mid"
    and r: "fold_err time_point_step entries mid = Inr rows'"
    by (auto split: sum.splits)
  have "\<not> list_all is_dict mid \<or> \<not> list_all (\<lambda>entry. entry_shape (snd entry)) entries"
  proof (cases "list_all is_dict rows_list")
    case False
    from step_keeps [OF m this] show ?thesis by simp
  next
    case True
    show ?thesis
    proof (cases "entry_shape time_point")
      case False
      from step_outside_shape [OF m [unfolded e] this] show ?thesis by simp
    next
      case sh: True
      with True Cons.prems(2) e show ?thesis by simp
    qed
  qed
  with r show ?case by (rule Cons.IH)
qed

lemma DataFrame_rows_raises:
  assumes "rows_list = [] \<or> is_dict (hd rows_list)" and "\<not> list_all is_dict rows_list"
  shows "DataFrame_rows rows_list = Inl AttributeError"
  using assms by (cases rows_list) (simp_all add: DataFrame_rows_def)

lemma collection_step_outside_shape:
  assumes "\<not> collection_shape coll_results"
  shows "\<exists>e. collection_step (collection_name, coll_results) dfs = Inl e"
proof (cases "subscript coll_results ''time-series-data''")
  case (Inl e)
  then show ?thesis by (simp add: collection_step_def)
next
  case (Inr tsd)
  show ?thesis
  proof (cases tsd)
    case (JObj entries)
    with assms Inr have bad: "\<not> list_all (\<lambda>entry. entry_shape (snd entry)) entries"
      by (simp add: collection_shape_def)
    show ?thesis
    proof (cases "fold_err time_point_step entries []")
      case (Inl e)
      with Inr JObj show ?thesis by (simp add: collection_step_def items_def)
    next
      case rows: (Inr rows_list)
      have h: "rows_list = [] \<or> is_dict (hd rows_list)"
        using rows by (rule time_points_head) simp
      have n: "\<not> list_all is_dict rows_list"
        using rows bad by (intro time_points_outside_shape [of entries "[]"]) simp_all
      from DataFrame_rows_raises [OF h n] Inr JObj rows show ?thesis
        by (simp add: collection_step_def items_def)
    qed
  qed (use Inr in \<open>simp_all add: collection_step_def items_def\<close>)
qed

lemma collections_outside_shape:
  "\<not> list_all (\<lambda>coll. collection_shape (snd coll)) colls \<Longrightarrow>
   \<exists>e. fold_err collection_step colls dfs = Inl e"
proof (induction colls arbitrary: dfs)
  case Nil
  then show ?case by simp
next
  case (Cons coll colls)
  obtain name coll_results where c: "coll = (name, coll_results)" by (cases coll)
  show ?case
  proof (cases "collection_step coll dfs")
    case (Inl e)
    then show ?thesis by simp
  next
    case (Inr dfs')
    have "collection_shape coll_results"
    proof (rule ccontr)
      assume "\<not> collection_shape coll_results"
      from collection_step_outside_shape [OF this, of name dfs] Inr c show False by simp
    qed
    with Cons.prems c have "\<not> list_all (\<lambda>coll. collection_shape (snd coll)) colls" by simp
    from Cons.IH [OF this, of dfs'] Inr show ?thesis by simp
  qed
qed

lemma read_outside_shape:
  assumes "fs filename = Some data" and "\<not> summary_shape data"
  shows "\<exists>e. variable_read_json_to_dataframe fs filename = Inl e"
proof (cases data)
  case (JObj colls)
  with assms(2) have "\<not> list_all (\<lambda>coll. collection_shape (snd coll)) colls"
    by (simp add: summary_shape_def)
  from collections_outside_shape [OF this, of "[]"] assms(1) JObj show ?thesis
    by (simp add: variable_read_json_to_dataframe_def items_def)
qed (use assms(1) in \<open>simp_all add: variable_read_json_to_dataframe_def items_def\<close>)

text \<open>
  On an entry whose first value is a mapping and whose second is a number the loop body
  appends one element per value, the second a bare number, and line 212 raises.
\<close>

lemma mixed_entry_raises:
  "time_point_step (''2020-01-01'', JObj mixed_items) [] = Inr [JObj [(''offset50'', JNum 1)], JNum 2]
   \<and> variable_read_json_to_dataframe [''results_summary.json'' \<mapsto> doc_mixed] ''results_summary.json''
       = Inl AttributeError"
  by (simp add: doc_mixed_def mixed_items_def variable_read_json_to_dataframe_def
        collection_step_def items_def subscript_def time_point_step_def DataFrame_rows_def)

lemmas shape_eval =
  summary_shape_def collection_shape_def entry_shape_def subscript_def spec_tables_def
  spec_table_def time_series_data_def spec_entry_rows_def

text \<open>
  C8. A date entry that is \<^verbatim>\<open>null\<close> or empty adds no row; an entry whose values are
  mappings adds one row per value, with that value's own fields; any other entry adds
  the one row of its metrics with the date stored under \<^verbatim>\<open>date\<close>. The loop body does
  so on every entry that is null or a mapping whose values are all mappings when the
  first one is. The function does so on every document: when the document is a mapping
  of collections with such entries it returns, under the name of each collection, the
  table of the rows the specification gives, and on any other document it raises and
  returns no table.
\<close>

theorem time_point_rows:
  "(entry_shape time_point \<longrightarrow>
      time_point_step (date, time_point) rows_list
        = Inr (rows_list @ map JObj (spec_entry_rows date time_point)))
   \<and> (fs filename = Some data \<and> summary_shape data \<longrightarrow>
        variable_read_json_to_dataframe fs filename = Inr (spec_tables data))
   \<and> (fs filename = Some data \<and> \<not> summary_shape data \<longrightarrow>
        (\<exists>e. variable_read_json_to_dataframe fs filename = Inl e))"
proof (intro conjI impI)
  assume "entry_shape time_point"
  then show "time_point_step (date, time_point) rows_list
               = Inr (rows_list @ map JObj (spec_entry_rows date time_point))"
    by (rule time_point_step_shape)
next
  assume h: "fs filename = Some data \<and> summary_shape data"
  show "variable_read_json_to_dataframe fs filename = Inr (spec_tables data)"
    by (rule read_shape [of fs filename data, OF h [THEN conjunct1] h [THEN conjunct2]])
next
  assume h: "fs filename = Some data \<and> \<not> summary_shape data"
  show "\<exists>e. variable_read_json_to_dataframe fs filename = Inl e"
    by (rule read_outside_shape [of fs filename data, OF h [THEN conjunct1] h [THEN conjunct2]])
qed

theorem time_point_rows_witness:
  "entry_shape (JObj space_entry)
   \<and> time_point_step (''2020-01-01'', JObj space_entry) []
       = Inr [JObj [(''date'', JStr ''2020-01-01''), (''offset50'', JNum 1)],
              JObj [(''date'', JStr ''2020-01-01''), (''offset50'', JNum 3)]]
   \<and> entry_shape (JObj flat_entry)
   \<and> time_point_step (''2020-01-01'', JObj flat_entry) []
       = Inr [JObj [(''total_precipitation'', JNum 2), (''date'', JStr ''2020-01-01'')]]
   \<and> [''results_summary.json'' \<mapsto> doc_var] ''results_summary.json'' = Some doc_var
   \<and> summary_shape doc_var
   \<and> variable_read_json_to_dataframe [''results_summary.json'' \<mapsto> doc_var] ''results_summary.json''
       = Inr [(''COPERNICUS/S2'', Records
                [[(''date'', JStr ''2020-01-01''), (''offset50'', JNum 1)],
                 [(''date'', JStr ''2020-01-01''), (''offset50'', JNum 3)]]),
              (''ECMWF/ERA5/MONTHLY'', Records
                [[(''total_precipitation'', JNum 2), (''date'', JStr ''2020-01-01'')]])]"
proof -
  have e: "entry_shape (JObj space_entry)" by (simp add: entry_shape_def space_entry_def)
  have e': "entry_shape (JObj flat_entry)" by (simp add: entry_shape_def flat_entry_def)
  have f: "[''results_summary.json'' \<mapsto> doc_var] ''results_summary.json'' = Some doc_var"
    by simp
  have s: "summary_shape doc_var" by (simp add: doc_var_def shape_eval)
  note t = time_point_rows [of "JObj space_entry" "''2020-01-01''" "[]"
      "[''results_summary.json'' \<mapsto> doc_var]" "''results_summary.json''" doc_var]
  note t' = time_point_rows [of "JObj flat_entry" "''2020-01-01''" "[]"
      "[''results_summary.json'' \<mapsto> doc_var]" "''results_summary.json''" doc_var]
  have r1: "time_point_step (''2020-01-01'', JObj space_entry) []
              = Inr ([] @ map JObj (spec_entry_rows ''2020-01-01'' (JObj space_entry)))"
    using t e by (elim conjE) simp
  have r1': "time_point_step (''2020-01-01'', JObj flat_entry) []
              = Inr ([] @ map JObj (spec_entry_rows ''2020-01-01'' (JObj flat_entry)))"
    using t' e' by (elim conjE) simp
  have r2: "variable_read_json_to_dataframe [''results_summary.json'' \<mapsto> doc_var] ''results_summary.json''
              = Inr (spec_tables doc_var)"
    using t f s by (elim conjE) simp
  have v1: "map JObj (spec_entry_rows ''2020-01-01'' (JObj space_entry))
              = [JObj [(''date'', JStr ''2020-01-01''), (''offset50'', JNum 1)],
                 JObj [(''date'', JStr ''2020-01-01''), (''offset50'', JNum 3)]]"
    by (simp add: spec_entry_rows_def space_entry_def)
  have v1': "map JObj (spec_entry_rows ''2020-01-01'' (JObj flat_entry))
              = [JObj [(''total_precipitation'', JNum 2), (''date'', JStr ''2020-01-01'')]]"
    by (simp add: spec_entry_rows_def flat_entry_def)
  have v2: "spec_tables doc_var
              = [(''COPERNICUS/S2'', Records
                   [[(''date'', JStr ''2020-01-01''), (''offset50'', JNum 1)],
                    [(''date'', JStr ''2020-01-01''), (''offset50'', JNum 3)]]),
                 (''ECMWF/ERA5/MONTHLY'', Records
                   [[(''total_precipitation'', JNum 2), (''date'', JStr ''2020-01-01'')]])]"
    by (simp add: doc_var_def shape_eval)
  show ?thesis using e e' f s r1 r1' r2 v1 v1' v2 by simp
qed

subsection \<open>One row for each key\<close>

lemma match_criteria_key: "match_criteria sp r \<longleftrightarrow> row_key r = sp_key sp"
  by (auto simp: match_criteria_def cell_is_def row_key_def sp_key_def)

lemma offset_col_not_key:
  "collection_name @ ''_offset50'' \<noteq> ''date''"
  "collection_name @ ''_offset50'' \<noteq> ''lat''"
  "collection_name @ ''_offset50'' \<noteq> ''long''"
  by (auto dest: arg_cong [where f = length])

lemma map_of_dict_set: "map_of (dict_set k v r) k' = (if k' = k then Some v else map_of r k')"
  by (induction r) auto

lemma row_key_dict_set:
  "c \<noteq> ''date'' \<Longrightarrow> c \<noteq> ''lat'' \<Longrightarrow> c \<noteq> ''long'' \<Longrightarrow> row_key (dict_set c v r) = row_key r"
  by (simp add: row_key_def map_of_dict_set)

lemma row_key_new_row: "row_key (new_row collection_name sp) = sp_key sp"
  by (simp add: row_key_def new_row_def sp_key_def)

lemma filter_distinct_key:
  "distinct (map f xs) \<Longrightarrow> x \<in> set xs \<Longrightarrow> filter (\<lambda>y. f y = f x) xs = [x]"
proof (induction xs)
  case Nil
  then show ?case by simp
next
  case (Cons a xs)
  show ?case
  proof (cases "a = x")
    case True
    have "f x \<notin> f ` set xs" using Cons.prems(1) True by simp
    then have "\<forall>y \<in> set xs. f y \<noteq> f x" by (metis imageI)
    then have "filter (\<lambda>y. f y = f x) xs = []" by (simp add: filter_empty_conv)
    with True show ?thesis by simp
  next
    case False
    with Cons.prems have x: "x \<in> set xs" by simp
    have "f a \<notin> f ` set xs" using Cons.prems(1) by simp
    with x have "f a \<noteq> f x" by auto
    with Cons.IH Cons.prems(1) x show ?thesis by simp
  qed
qed

lemma rows_loc_set_new:
  "i \<notin> set (map fst (rows df)) \<Longrightarrow> rows (loc_set i c v df) = rows df @ [(i, [(c, v)])]"
  by (simp add: loc_set_def)

lemma rows_loc_set_last:
  assumes "rows df = rs @ [(i, r)]" and "i \<notin> set (map fst rs)"
  shows "rows (loc_set i c v df) = rs @ [(i, dict_set c v r)]"
proof -
  have "map (\<lambda>(l, r). if l = i then (l, dict_set c v r) else (l, r)) rs = rs"
    using assms(2) by (induction rs) auto
  then show ?thesis using assms(1) by (simp add: loc_set_def)
qed

lemma space_point_step_new:
  assumes inv: "veg_inv (df, i)" and new: "sp_key sp \<notin> set (map row_key (map snd (rows df)))"
  shows "\<exists>df'. space_point_step cn sp (df, i) = Inr (df', i + 1)
           \<and> rows df' = rows df @ [(i, new_row cn sp)]"
proof -
  have lab: "i \<notin> set (map fst (rows df))" using inv by (simp add: veg_inv_def)
  have "\<forall>p \<in> set (rows df). row_key (snd p) \<noteq> sp_key sp"
    using new by (metis (no_types, lifting) imageI list.set_map)
  then have "filter (\<lambda>(l, r). match_criteria sp r) (rows df) = []"
    by (auto simp: filter_empty_conv match_criteria_key)
  then have m: "matched_indices_of (match_criteria sp) df = []"
    by (simp add: matched_indices_of_def)
  let ?d1 = "loc_set i ''date'' (Str (sp_date sp)) df"
  let ?d2 = "loc_set i ''lat'' (Num (latitude sp)) ?d1"
  let ?d3 = "loc_set i ''long'' (Num (longitude sp)) ?d2"
  let ?d4 = "loc_set i (cn @ ''_offset50'') (Num (offset50 sp)) ?d3"
  have r1: "rows ?d1 = rows df @ [(i, [(''date'', Str (sp_date sp))])]"
    using lab by (rule rows_loc_set_new)
  have r2: "rows ?d2 = rows df @ [(i, dict_set ''lat'' (Num (latitude sp)) [(''date'', Str (sp_date sp))])]"
    using r1 lab by (rule rows_loc_set_last)
  have r3: "rows ?d3 = rows df @ [(i, dict_set ''long'' (Num (longitude sp))
              (dict_set ''lat'' (Num (latitude sp)) [(''date'', Str (sp_date sp))]))]"
    using r2 lab by (rule rows_loc_set_last)
  have r4: "rows ?d4 = rows df @ [(i, dict_set (cn @ ''_offset50'') (Num (offset50 sp))
              (dict_set ''long'' (Num (longitude sp))
              (dict_set ''lat'' (Num (latitude sp)) [(''date'', Str (sp_date sp))])))]"
    using r3 lab by (rule rows_loc_set_last)
  have "dict_set (cn @ ''_offset50'') (Num (offset50 sp))
              (dict_set ''long'' (Num (longitude sp))
              (dict_set ''lat'' (Num (latitude sp)) [(''date'', Str (sp_date sp))])) = new_row cn sp"
    using offset_col_not_key [of cn] by (simp add: new_row_def)
  with r4 have "rows ?d4 = rows df @ [(i, new_row cn sp)]" by simp
  moreover have "space_point_step cn sp (df, i) = Inr (?d4, i + 1)"
    using m by (simp add: space_point_step_def)
  ultimately show ?thesis by (intro exI conjI)
qed

lemma space_point_step_old:
  assumes inv: "veg_inv (df, i)" and old: "sp_key sp \<in> set (map row_key (map snd (rows df)))"
  shows "\<exists>df'. space_point_step cn sp (df, i) = Inr (df', i)
           \<and> map fst (rows df') = map fst (rows df)
           \<and> map snd (rows df') =
               map (\<lambda>r. if row_key r = sp_key sp
                          then dict_set (cn @ ''_offset50'') (Num (offset50 sp)) r else r) (map snd (rows df))"
proof -
  let ?c = "cn @ ''_offset50''" and ?v = "Num (offset50 sp)"
  from inv have dl: "distinct (map fst (rows df))" and dk: "distinct (map (row_key \<circ> snd) (rows df))"
    by (simp_all add: veg_inv_def)
  from old obtain l r where lr: "(l, r) \<in> set (rows df)" and k: "row_key r = sp_key sp"
    by auto
  have "filter (\<lambda>y. (row_key \<circ> snd) y = (row_key \<circ> snd) (l, r)) (rows df) = [(l, r)]"
    using dk lr by (rule filter_distinct_key)
  then have "filter (\<lambda>(l, r). match_criteria sp r) (rows df) = [(l, r)]"
    by (simp add: match_criteria_key k case_prod_unfold)
  then have m: "matched_indices_of (match_criteria sp) df = [l]"
    by (simp add: matched_indices_of_def)
  let ?df' = "loc_set l ?c ?v df"
  have step: "space_point_step cn sp (df, i) = Inr (?df', i)"
    using m by (simp add: space_point_step_def)
  have lin: "l \<in> set (map fst (rows df))" using lr by force
  then have rows': "rows ?df' = map (\<lambda>(l', r'). if l' = l then (l', dict_set ?c ?v r') else (l', r')) (rows df)"
    by (simp add: loc_set_def)
  have labels: "map fst (rows ?df') = map fst (rows df)"
    unfolding rows' by (induction "rows df") auto
  have same: "\<And>l' r'. (l', r') \<in> set (rows df) \<Longrightarrow> (l' = l) = (row_key r' = sp_key sp)"
  proof -
    fix l' r' assume in': "(l', r') \<in> set (rows df)"
    show "(l' = l) = (row_key r' = sp_key sp)"
    proof
      assume "l' = l"
      then have "fst (l', r') = fst (l, r)" by simp
      with dl in' lr have "(l', r') = (l, r)"
        by (metis distinct_map inj_on_eq_iff)
      with k show "row_key r' = sp_key sp" by simp
    next
      assume "row_key r' = sp_key sp"
      with k have "(row_key \<circ> snd) (l', r') = (row_key \<circ> snd) (l, r)" by simp
      with dk in' lr have "(l', r') = (l, r)"
        by (metis distinct_map inj_on_eq_iff)
      then show "l' = l" by simp
    qed
  qed
  have cells: "map snd (rows ?df') =
      map (\<lambda>r. if row_key r = sp_key sp then dict_set ?c ?v r else r) (map snd (rows df))"
    unfolding rows' map_map
  proof (rule map_cong [OF refl])
    fix p assume p: "p \<in> set (rows df)"
    obtain l' r' where pp: "p = (l', r')" by (cases p)
    with p same have "(l' = l) = (row_key r' = sp_key sp)" by simp
    then show "(snd \<circ> (\<lambda>(l', r'). if l' = l then (l', dict_set ?c ?v r') else (l', r'))) p
         = ((\<lambda>r. if row_key r = sp_key sp then dict_set ?c ?v r else r) \<circ> snd) p"
      by (simp add: pp)
  qed
  show ?thesis using step labels cells by (intro exI conjI)
qed

lemma map_row_key_update:
  "map row_key (map (\<lambda>r. if row_key r = k then dict_set (cn @ ''_offset50'') v r else r) rs) = map row_key rs"
  by (induction rs) (simp_all add: row_key_dict_set offset_col_not_key)

lemma space_point_step_rows:
  assumes inv: "veg_inv st"
  shows "\<exists>st'. space_point_step cn sp st = Inr st' \<and> veg_inv st'
           \<and> map snd (rows (fst st')) = rows_step (cn, sp) (map snd (rows (fst st)))"
proof -
  obtain df i where st: "st = (df, i)" by (cases st)
  show ?thesis
  proof (cases "sp_key sp \<in> set (map row_key (map snd (rows df)))")
    case True
    from space_point_step_old [OF inv [unfolded st] True, of cn] obtain df' where
      s: "space_point_step cn sp (df, i) = Inr (df', i)"
      and l: "map fst (rows df') = map fst (rows df)"
      and c: "map snd (rows df') = map (\<lambda>r. if row_key r = sp_key sp
                  then dict_set (cn @ ''_offset50'') (Num (offset50 sp)) r else r) (map snd (rows df))"
      by (elim exE conjE)
    have "map (row_key \<circ> snd) (rows df') = map row_key (map snd (rows df'))" by simp
    also have "\<dots> = map row_key (map snd (rows df))" unfolding c by (rule map_row_key_update)
    finally have "map (row_key \<circ> snd) (rows df') = map (row_key \<circ> snd) (rows df)" by simp
    with inv l have "veg_inv (df', i)" by (simp add: veg_inv_def st)
    moreover have "map snd (rows df') = rows_step (cn, sp) (map snd (rows df))"
      using True c by (simp add: rows_step_def)
    ultimately show ?thesis using s by (simp add: st)
  next
    case False
    from space_point_step_new [OF inv [unfolded st] False, of cn] obtain df' where
      s: "space_point_step cn sp (df, i) = Inr (df', i + 1)"
      and r: "rows df' = rows df @ [(i, new_row cn sp)]"
      by (elim exE conjE)
    have "sp_key sp \<notin> set (map (row_key \<circ> snd) (rows df))" using False by simp
    then have "veg_inv (df', i + 1)"
      using inv by (simp add: veg_inv_def st r row_key_new_row)
    moreover have "map snd (rows df') = rows_step (cn, sp) (map snd (rows df))"
      using False r by (simp add: rows_step_def)
    ultimately show ?thesis using s by (simp add: st)
  qed
qed

lemma fold_err_append:
  "fold_err f (xs @ ys) s = (case fold_err f xs s of Inl e \<Rightarrow> Inl e | Inr s' \<Rightarrow> fold_err f ys s')"
  by (induction xs arbitrary: s) (auto split: sum.splits)

lemma space_points_flat:
  "fold_err (\<lambda>kv. space_point_step cn (snd kv)) sps st
     = fold_err record_step (map (\<lambda>(k, sp). (cn, sp)) sps) st"
  by (induction sps arbitrary: st) (auto simp: record_step_def split: sum.splits)

lemma time_points_flat:
  "fold_err (veg_time_point_step cn) tsd st
     = fold_err record_step
         (concat (map (\<lambda>(date, time_point).
              case time_point of None \<Rightarrow> [] | Some sps \<Rightarrow> map (\<lambda>(k, sp). (cn, sp)) sps) tsd)) st"
proof (induction tsd arbitrary: st)
  case Nil
  then show ?case by simp
next
  case (Cons item tsd)
  obtain date tp where item: "item = (date, tp)" by (cases item)
  show ?case
  proof (cases tp)
    case None
    then show ?thesis using Cons.IH by (simp add: item veg_time_point_step_def)
  next
    case (Some sps)
    then show ?thesis using Cons.IH
      by (simp add: item veg_time_point_step_def space_points_flat fold_err_append split: sum.splits)
  qed
qed

lemma veg_collection_step_simps:
  "veg_collection_step (cn, Vegetation tsd) st = fold_err (veg_time_point_step cn) tsd st"
  "veg_collection_step (cn, Other tsd') st = Inr st"
  by (simp_all add: veg_collection_step_def)

lemma veg_records_Cons:
  "veg_records ((cn, Vegetation tsd) # data) =
     concat (map (\<lambda>(date, time_point).
              case time_point of None \<Rightarrow> [] | Some sps \<Rightarrow> map (\<lambda>(k, sp). (cn, sp)) sps) tsd)
     @ veg_records data"
  "veg_records ((cn, Other tsd') # data) = veg_records data"
  by (simp_all add: veg_records_def)

lemma collections_flat:
  "fold_err veg_collection_step data st = fold_err record_step (veg_records data) st"
proof (induction data arbitrary: st)
  case Nil
  then show ?case by (simp add: veg_records_def)
next
  case (Cons item data)
  obtain cn c where item: "item = (cn, c)" by (cases item)
  show ?case
  proof (cases c)
    case (Vegetation tsd)
    show ?thesis
      unfolding item Vegetation veg_records_Cons fold_err_append fold_err.simps
        veg_collection_step_simps time_points_flat
      using Cons.IH by (simp split: sum.splits)
  next
    case (Other tsd)
    show ?thesis
      unfolding item Other veg_records_Cons fold_err.simps veg_collection_step_simps
      using Cons.IH by simp
  qed
qed

lemma records_fold:
  "veg_inv st \<Longrightarrow>
   \<exists>st'. fold_err record_step recs st = Inr st' \<and> veg_inv st'
       \<and> map snd (rows (fst st')) = fold rows_step recs (map snd (rows (fst st)))"
proof (induction recs arbitrary: st)
  case Nil
  then show ?case by simp
next
  case (Cons rec recs)
  from space_point_step_rows [OF Cons.prems, of "fst rec" "snd rec"] obtain st1 where
    s1: "space_point_step (fst rec) (snd rec) st = Inr st1" and i1: "veg_inv st1"
    and r1: "map snd (rows (fst st1)) = rows_step rec (map snd (rows (fst st)))"
    by (elim exE conjE) simp
  from Cons.IH [OF i1] obtain st2 where
    s2: "fold_err record_step recs st1 = Inr st2" and i2: "veg_inv st2"
    and r2: "map snd (rows (fst st2)) = fold rows_step recs (map snd (rows (fst st1)))"
    by (elim exE conjE)
  have "fold_err record_step (rec # recs) st = Inr st2" using s1 s2 by (simp add: record_step_def)
  moreover have "map snd (rows (fst st2)) = fold rows_step (rec # recs) (map snd (rows (fst st)))"
    using r1 r2 by simp
  ultimately show ?case using i2 by (intro exI conjI)
qed

lemma metric_cell_snoc:
  "metric_cell (recs @ [(cn, sp)]) k c =
     (if sp_key sp = k \<and> cn @ ''_offset50'' = c then Some (Num (offset50 sp)) else metric_cell recs k c)"
  by (simp add: metric_cell_def Let_def)

lemma metric_cell_absent:
  "k \<notin> set (map (sp_key \<circ> snd) recs) \<Longrightarrow> metric_cell recs k c = None"
proof -
  assume "k \<notin> set (map (sp_key \<circ> snd) recs)"
  then have "\<forall>p \<in> set recs. sp_key (snd p) \<noteq> k" by (metis comp_apply imageI list.set_map)
  then have "filter (\<lambda>(collection_name, sp). sp_key sp = k \<and> collection_name @ ''_offset50'' = c) recs = []"
    by (auto simp: filter_empty_conv)
  then show ?thesis by (simp add: metric_cell_def)
qed

lemma rows_ok_fold: "rows_ok recs (fold rows_step recs [])"
proof (induction recs rule: rev_induct)
  case Nil
  then show ?case by (simp add: rows_ok_def)
next
  case (snoc rec recs)
  obtain cn sp where rec: "rec = (cn, sp)" by (cases rec)
  let ?R = "fold rows_step recs []"
  let ?k = "sp_key sp" and ?c0 = "cn @ ''_offset50''" and ?v = "Num (offset50 sp)"
  from snoc have d: "distinct (map row_key ?R)"
    and ks: "set (map row_key ?R) = set (map (sp_key \<circ> snd) recs)"
    and cs: "\<And>r c. r \<in> set ?R \<Longrightarrow> c \<notin> {''date'', ''lat'', ''long''} \<Longrightarrow>
              map_of r c = metric_cell recs (row_key r) c"
    by (simp_all add: rows_ok_def)
  have f: "fold rows_step (recs @ [rec]) [] = rows_step (cn, sp) ?R" by (simp add: rec)
  show ?case
  proof (cases "?k \<in> set (map row_key ?R)")
    case True
    let ?upd = "\<lambda>r. if row_key r = ?k then dict_set ?c0 ?v r else r"
    have R': "rows_step (cn, sp) ?R = map ?upd ?R" using True by (simp add: rows_step_def)
    have keys: "map row_key (map ?upd ?R) = map row_key ?R" by (rule map_row_key_update)
    have kupd: "\<And>r. row_key (?upd r) = row_key r"
      by (simp add: row_key_dict_set offset_col_not_key)
    have A: "distinct (map row_key (map ?upd ?R))" using d by (simp only: keys)
    have "set (map (sp_key \<circ> snd) (recs @ [rec])) = insert ?k (set (map (sp_key \<circ> snd) recs))"
      by (simp add: rec)
    also have "\<dots> = set (map (sp_key \<circ> snd) recs)"
      using True unfolding ks by (rule insert_absorb)
    finally have B: "set (map row_key (map ?upd ?R)) = set (map (sp_key \<circ> snd) (recs @ [rec]))"
      unfolding keys ks by (rule sym)
    have C: "\<forall>r' \<in> set (map ?upd ?R). \<forall>c. c \<notin> {''date'', ''lat'', ''long''} \<longrightarrow>
              map_of r' c = metric_cell (recs @ [rec]) (row_key r') c"
    proof (intro ballI allI impI)
      fix r' c assume r': "r' \<in> set (map ?upd ?R)" and c: "c \<notin> {''date'', ''lat'', ''long''}"
      from r' obtain r where r: "r \<in> set ?R" and e: "r' = ?upd r" by auto
      have k': "row_key r' = row_key r" unfolding e by (rule kupd)
      show "map_of r' c = metric_cell (recs @ [rec]) (row_key r') c"
      proof (cases "row_key r = ?k")
        case True
        then have "map_of r' c = (if c = ?c0 then Some ?v else map_of r c)"
          by (simp add: e map_of_dict_set)
        also have "\<dots> = (if c = ?c0 then Some ?v else metric_cell recs (row_key r) c)"
          using cs [OF r c] by simp
        also have "\<dots> = metric_cell (recs @ [rec]) (row_key r') c"
          using True by (auto simp: rec metric_cell_snoc k')
        finally show ?thesis .
      next
        case False
        then have "map_of r' c = map_of r c" by (simp add: e)
        also have "\<dots> = metric_cell recs (row_key r) c" by (rule cs [OF r c])
        also have "\<dots> = metric_cell (recs @ [rec]) (row_key r') c"
          using False by (auto simp: rec metric_cell_snoc k')
        finally show ?thesis .
      qed
    qed
    show ?thesis unfolding f R' rows_ok_def using A B C by (intro conjI)
  next
    case False
    have R': "rows_step (cn, sp) ?R = ?R @ [new_row cn sp]" using False by (simp add: rows_step_def)
    have A: "distinct (map row_key (?R @ [new_row cn sp]))"
      using d False by (simp add: row_key_new_row)
    have "set (map row_key (?R @ [new_row cn sp])) = insert ?k (set (map row_key ?R))"
      by (simp add: row_key_new_row)
    also have "\<dots> = insert ?k (set (map (sp_key \<circ> snd) recs))" unfolding ks ..
    also have "\<dots> = set (map (sp_key \<circ> snd) (recs @ [rec]))" by (simp add: rec)
    finally have B: "set (map row_key (?R @ [new_row cn sp])) = set (map (sp_key \<circ> snd) (recs @ [rec]))" .
    have absent: "\<And>c. metric_cell recs ?k c = None"
      using False ks by (intro metric_cell_absent) simp
    have C: "\<forall>r' \<in> set (?R @ [new_row cn sp]). \<forall>c. c \<notin> {''date'', ''lat'', ''long''} \<longrightarrow>
              map_of r' c = metric_cell (recs @ [rec]) (row_key r') c"
    proof (intro ballI allI impI)
      fix r' c assume r': "r' \<in> set (?R @ [new_row cn sp])" and c: "c \<notin> {''date'', ''lat'', ''long''}"
      from r' consider "r' \<in> set ?R" | "r' = new_row cn sp" by auto
      then show "map_of r' c = metric_cell (recs @ [rec]) (row_key r') c"
      proof cases
        case 1
        then have "row_key r' \<in> set (map row_key ?R)" by simp
        with False have ne: "row_key r' \<noteq> ?k" by auto
        have "map_of r' c = metric_cell recs (row_key r') c" by (rule cs [OF 1 c])
        also have "\<dots> = metric_cell (recs @ [rec]) (row_key r') c"
          using ne by (auto simp: rec metric_cell_snoc)
        finally show ?thesis .
      next
        case 2
        have "map_of (new_row cn sp) c = (if c = ?c0 then Some ?v else None)"
          using c by (simp add: new_row_def)
        also have "\<dots> = metric_cell (recs @ [rec]) ?k c"
          by (auto simp: rec metric_cell_snoc absent)
        finally show ?thesis by (simp add: 2 row_key_new_row)
      qed
    qed
    show ?thesis unfolding f R' rows_ok_def using A B C by (intro conjI)
  qed
qed

text \<open>
  C2. For every document the vegetation table is built without an error, the rows have
  pairwise different keys (date, lat, long), the keys of the rows are the keys of the
  vegetation records, so there is exactly one row for each distinct triple, and every
  metric column of a row holds the value of the last record with the row's triple that
  writes that column, and is missing when no record does.
\<close>

theorem vegetation_rows_unique:
  "\<exists>veg_df i. vegetation_table data = Inr (veg_df, i)
     \<and> distinct (map (row_key \<circ> snd) (rows veg_df))
     \<and> set (map (row_key \<circ> snd) (rows veg_df)) = set (map (sp_key \<circ> snd) (veg_records data))
     \<and> length (rows veg_df) = card (set (map (sp_key \<circ> snd) (veg_records data)))
     \<and> (\<forall>r \<in> set (map snd (rows veg_df)). \<forall>c. c \<notin> {''date'', ''lat'', ''long''} \<longrightarrow>
            map_of r c = metric_cell (veg_records data) (row_key r) c)"
proof -
  let ?init = "(DataFrame [''date'', ''lat'', ''long''], 0::nat)"
  have inv0: "veg_inv ?init" by (simp add: veg_inv_def DataFrame_def)
  from records_fold [OF inv0, of "veg_records data"] obtain st where
    s: "fold_err record_step (veg_records data) ?init = Inr st"
    and r: "map snd (rows (fst st)) = fold rows_step (veg_records data) (map snd (rows (fst ?init)))"
    by (elim exE conjE)
  obtain veg_df i where st: "st = (veg_df, i)" by (cases st)
  have vt: "vegetation_table data = Inr (veg_df, i)"
    using s by (simp add: vegetation_table_def collections_flat st)
  have r': "map snd (rows veg_df) = fold rows_step (veg_records data) []"
    using r by (simp add: st DataFrame_def)
  have ok: "rows_ok (veg_records data) (map snd (rows veg_df))"
    unfolding r' by (rule rows_ok_fold)
  have k: "map (row_key \<circ> snd) (rows veg_df) = map row_key (map snd (rows veg_df))" by simp
  from ok have A: "distinct (map (row_key \<circ> snd) (rows veg_df))"
    and B: "set (map (row_key \<circ> snd) (rows veg_df)) = set (map (sp_key \<circ> snd) (veg_records data))"
    and C: "\<forall>r \<in> set (map snd (rows veg_df)). \<forall>c. c \<notin> {''date'', ''lat'', ''long''} \<longrightarrow>
            map_of r c = metric_cell (veg_records data) (row_key r) c"
    unfolding k rows_ok_def by simp_all
  have "length (rows veg_df) = length (map (row_key \<circ> snd) (rows veg_df))" by simp
  also have "\<dots> = card (set (map (row_key \<circ> snd) (rows veg_df)))"
    using A by (rule distinct_card [symmetric])
  finally have D: "length (rows veg_df) = card (set (map (sp_key \<circ> snd) (veg_records data)))"
    unfolding B .
  show ?thesis using vt A B D C by (intro exI conjI)
qed

theorem vegetation_rows_unique_witness:
  "vegetation_table doc1 = Inr (veg1, 3)
   \<and> (\<exists>veg_df i. vegetation_table doc1 = Inr (veg_df, i)
     \<and> distinct (map (row_key \<circ> snd) (rows veg_df))
     \<and> set (map (row_key \<circ> snd) (rows veg_df)) = set (map (sp_key \<circ> snd) (veg_records doc1))
     \<and> length (rows veg_df) = card (set (map (sp_key \<circ> snd) (veg_records doc1)))
     \<and> (\<forall>r \<in> set (map snd (rows veg_df)). \<forall>c. c \<notin> {''date'', ''lat'', ''long''} \<longrightarrow>
            map_of r c = metric_cell (veg_records doc1) (row_key r) c))"
proof -
  have "vegetation_table doc1 = Inr (veg1, 3)"
    by (simp add: read_eval doc1_def veg1_def)
  then show ?thesis using vegetation_rows_unique [of doc1] by (intro conjI)
qed

subsection \<open>The merged table\<close>

lemma length_filter_concat:
  "length (filter P (concat xss)) = sum_list (map (\<lambda>xs. length (filter P xs)) xss)"
  by (induction xss) simp_all

lemma pairs_outer_blocks:
  "pairs_outer on ls rs =
     concat (map (left_block on rs) ls)
     @ map (\<lambda>r. (None, Some r)) (filter (\<lambda>r. map_of r on \<notin> set (map (\<lambda>l. map_of l on) ls)) rs)"
  by (simp add: pairs_outer_def left_block_def [abs_def])

lemma left_block_count:
  "length (filter (\<lambda>p. pair_key on p = k) (left_block on rs l))
     = (if map_of l on = k then max 1 (count_key on k rs) else 0)"
proof -
  let ?ms = "filter (\<lambda>r. map_of r on = map_of l on) rs"
  have all: "\<forall>p \<in> set (left_block on rs l). pair_key on p = map_of l on"
    by (auto simp: left_block_def pair_key_def Let_def)
  show ?thesis
  proof (cases "map_of l on = k")
    case True
    have "filter (\<lambda>p. pair_key on p = k) (left_block on rs l) = left_block on rs l"
      using all True by (simp add: filter_id_conv)
    moreover have "length (left_block on rs l) = max 1 (length ?ms)"
      by (cases ?ms) (simp_all add: left_block_def Let_def)
    ultimately show ?thesis using True by (simp add: count_key_def)
  next
    case False
    have "filter (\<lambda>p. pair_key on p = k) (left_block on rs l) = []"
      using all False by (simp add: filter_empty_conv)
    then show ?thesis using False by simp
  qed
qed

lemma left_part_count:
  "length (filter (\<lambda>p. pair_key on p = k) (concat (map (left_block on rs) ls)))
     = count_key on k ls * max 1 (count_key on k rs)"
  by (induction ls) (simp_all add: left_block_count count_key_def)

lemma right_part_count:
  "length (filter (\<lambda>p. pair_key on p = k)
      (map (\<lambda>r. (None, Some r)) (filter (\<lambda>r. map_of r on \<notin> set (map (\<lambda>l. map_of l on) ls)) rs)))
     = (if count_key on k ls = 0 then count_key on k rs else 0)"
proof -
  define K where "K = set (map (\<lambda>l. map_of l on) ls)"
  have mem: "(k \<in> K) = (count_key on k ls \<noteq> 0)"
    unfolding K_def by (induction ls) (auto simp: count_key_def)
  have e: "filter (\<lambda>p. pair_key on p = k) (map (\<lambda>r. (None, Some r)) (filter (\<lambda>r. map_of r on \<notin> K) rs))
     = map (\<lambda>r. (None, Some r)) (filter (\<lambda>r. map_of r on = k \<and> k \<notin> K) rs)"
    by (induction rs) (auto simp: pair_key_def)
  show ?thesis
  proof (cases "count_key on k ls = 0")
    case True
    with mem have "k \<notin> K" by simp
    then have "filter (\<lambda>r. map_of r on = k \<and> k \<notin> K) rs = filter (\<lambda>r. map_of r on = k) rs" by simp
    then show ?thesis using True unfolding K_def [symmetric] e by (simp add: count_key_def)
  next
    case False
    with mem have "k \<in> K" by simp
    then have "filter (\<lambda>r. map_of r on = k \<and> k \<notin> K) rs = []" by simp
    then show ?thesis using False unfolding K_def [symmetric] e by simp
  qed
qed

lemma pairs_outer_count:
  "length (filter (\<lambda>p. pair_key on p = k) (pairs_outer on ls rs))
     = (if count_key on k ls = 0 then count_key on k rs
        else count_key on k ls * max 1 (count_key on k rs))"
proof -
  have "length (filter (\<lambda>p. pair_key on p = k) (pairs_outer on ls rs))
      = length (filter (\<lambda>p. pair_key on p = k) (concat (map (left_block on rs) ls)))
        + length (filter (\<lambda>p. pair_key on p = k)
            (map (\<lambda>r. (None, Some r)) (filter (\<lambda>r. map_of r on \<notin> set (map (\<lambda>l. map_of l on) ls)) rs)))"
    unfolding pairs_outer_blocks filter_append length_append ..
  also have "\<dots> = count_key on k ls * max 1 (count_key on k rs)
        + (if count_key on k ls = 0 then count_key on k rs else 0)"
    unfolding left_part_count right_part_count ..
  finally show ?thesis by simp
qed

lemma suffix_not_date: "c @ ''_x'' \<noteq> ''date''" "c @ ''_y'' \<noteq> ''date''"
  by (auto dest: arg_cong [where f = last])

lemma renamed_date:
  "c \<noteq> ''date'' \<Longrightarrow> (if b then c @ ''_x'' else c) \<noteq> ''date''"
  "c \<noteq> ''date'' \<Longrightarrow> (if b then c @ ''_y'' else c) \<noteq> ''date''"
  by (simp_all add: suffix_not_date)

lemma map_of_renamed_left:
  assumes ov: "\<And>c. ov c \<Longrightarrow> c \<noteq> ''date''"
  shows "map_of (map (\<lambda>(c, v). (if ov c then c @ ''_x'' else c, v)) l) ''date'' = map_of l ''date''"
proof (induction l)
  case Nil
  then show ?case by simp
next
  case (Cons a l)
  obtain c v where a: "a = (c, v)" by (cases a)
  show ?case
  proof (cases "c = ''date''")
    case True
    then have "\<not> ov c" using ov by auto
    with True show ?thesis by (simp add: a)
  next
    case False
    then have "(if ov c then c @ ''_x'' else c) \<noteq> ''date''" by (rule renamed_date)
    with False Cons.IH show ?thesis by (simp add: a)
  qed
qed

lemma map_of_renamed_right:
  "map_of (map (\<lambda>(c, v). (if ov c then c @ ''_y'' else c, v)) (filter (\<lambda>(c, v). c \<noteq> ''date'') r)) ''date''
     = None"
proof (induction r)
  case Nil
  then show ?case by simp
next
  case (Cons a r)
  obtain c v where a: "a = (c, v)" by (cases a)
  show ?case
  proof (cases "c = ''date''")
    case True
    with Cons.IH show ?thesis by (simp add: a)
  next
    case False
    then have "(if ov c then c @ ''_y'' else c) \<noteq> ''date''" by (rule renamed_date)
    with False Cons.IH show ?thesis by (simp add: a)
  qed
qed

lemma map_of_key_cells: "map_of (filter (\<lambda>(c, v). c = ''date'') r) ''date'' = map_of r ''date''"
  by (induction r) auto

lemma merged_row_date:
  "map_of (merged_row ''date'' lcols rcols p) ''date'' = pair_key ''date'' p"
proof -
  let ?ov = "\<lambda>c. c \<noteq> ''date'' \<and> c \<in> set lcols \<and> c \<in> set rcols"
  have L: "\<And>l. map_of (map (\<lambda>(c, v). (if ?ov c then c @ ''_x'' else c, v)) l) ''date'' = map_of l ''date''"
    by (rule map_of_renamed_left) simp
  have R: "\<And>r. map_of (map (\<lambda>(c, v). (if ?ov c then c @ ''_y'' else c, v))
               (filter (\<lambda>(c, v). c \<noteq> ''date'') r)) ''date'' = None"
    by (rule map_of_renamed_right)
  obtain a b where p: "p = (a, b)" by (cases p)
  show ?thesis
  proof (cases a)
    case None
    show ?thesis
    proof (cases b)
      case None
      with \<open>a = None\<close> show ?thesis by (simp add: p merged_row_def pair_key_def)
    next
      case (Some r)
      with \<open>a = None\<close> show ?thesis
        by (simp add: p merged_row_def pair_key_def map_add_def R map_of_key_cells split: option.splits)
    qed
  next
    case (Some l)
    show ?thesis
    proof (cases b)
      case None
      with \<open>a = Some l\<close> show ?thesis by (simp add: p merged_row_def pair_key_def L)
    next
      case (Some r)
      with \<open>a = Some l\<close> show ?thesis
        by (simp add: p merged_row_def pair_key_def map_add_def R L split: option.splits)
    qed
  qed
qed

lemma merged_rows:
  "map snd (rows (merge_outer on left right))
     = map (merged_row on (columns left) (columns right))
         (pairs_outer on (map snd (rows left)) (map snd (rows right)))"
  by (simp add: merge_outer_def Let_def enumerate_eq_zip)

lemma count_key_merged:
  "count_key ''date'' k (map (merged_row ''date'' lcols rcols) ps)
     = length (filter (\<lambda>p. pair_key ''date'' p = k) ps)"
  by (induction ps) (simp_all add: count_key_def merged_row_date)

lemma merge_outer_count:
  "count_key ''date'' k (map snd (rows (merge_outer ''date'' left right)))
     = (if count_key ''date'' k (map snd (rows left)) = 0 then count_key ''date'' k (map snd (rows right))
        else count_key ''date'' k (map snd (rows left)) * max 1 (count_key ''date'' k (map snd (rows right))))"
  unfolding merged_rows count_key_merged by (rule pairs_outer_count)

lemma map_of_absent: "c \<notin> fst ` set r \<Longrightarrow> map_of r c = None"
  by (simp add: map_of_eq_None_iff)

lemma left_only_nulls:
  assumes no: "set lcols \<inter> set rcols \<subseteq> {''date''}" and wf: "fst ` set l \<subseteq> set lcols"
    and c: "c \<in> set rcols" "c \<noteq> ''date''"
  shows "map_of (merged_row ''date'' lcols rcols (Some l, None)) c = None"
proof -
  have ov: "\<And>c. \<not> (c \<noteq> ''date'' \<and> c \<in> set lcols \<and> c \<in> set rcols)" using no by auto
  have "merged_row ''date'' lcols rcols (Some l, None) = l"
    by (simp add: merged_row_def ov case_prod_unfold)
  moreover have "c \<notin> fst ` set l" using wf c no by auto
  ultimately show ?thesis by (simp add: map_of_absent)
qed

lemma right_only_nulls:
  assumes no: "set lcols \<inter> set rcols \<subseteq> {''date''}" and wf: "fst ` set r \<subseteq> set rcols"
    and c: "c \<in> set lcols" "c \<noteq> ''date''"
  shows "map_of (merged_row ''date'' lcols rcols (None, Some r)) c = None"
proof -
  have ov: "\<And>c. \<not> (c \<noteq> ''date'' \<and> c \<in> set lcols \<and> c \<in> set rcols)" using no by auto
  have m: "merged_row ''date'' lcols rcols (None, Some r)
      = filter (\<lambda>(c, v). c = ''date'') r @ filter (\<lambda>(c, v). c \<noteq> ''date'') r"
    by (simp add: merged_row_def ov case_prod_unfold)
  have "c \<notin> fst ` set r" using wf c no by auto
  then have "c \<notin> fst ` set (filter (\<lambda>(c, v). c = ''date'') r @ filter (\<lambda>(c, v). c \<noteq> ''date'') r)"
    by auto
  then show ?thesis unfolding m by (rule map_of_absent)
qed

lemma count_key_pos: "r \<in> set rs \<Longrightarrow> map_of r on = k \<Longrightarrow> 0 < count_key on k rs"
  by (auto simp: count_key_def filter_empty_conv)

lemma pairs_outer_cases:
  assumes "p \<in> set (pairs_outer on ls rs)"
  shows "(\<exists>l r. p = (Some l, Some r) \<and> l \<in> set ls \<and> r \<in> set rs \<and> map_of r on = map_of l on)
       \<or> (\<exists>l. p = (Some l, None) \<and> l \<in> set ls)
       \<or> (\<exists>r. p = (None, Some r) \<and> r \<in> set rs)"
  using assms by (auto simp: pairs_outer_def Let_def split: if_splits)

lemma well_formed_row:
  assumes "well_formed df" and "r \<in> set (map snd (rows df))"
  shows "fst ` set r \<subseteq> set (columns df)"
proof
  fix c assume "c \<in> fst ` set r"
  then have c: "c \<in> set (map fst r)" by simp
  from assms(2) obtain p where p: "p \<in> set (rows df)" and r: "r = snd p" by auto
  from p have "map fst (snd p) \<in> set (map (\<lambda>r. map fst (snd r)) (rows df))" by simp
  with c have "c \<in> set (concat (map (\<lambda>r. map fst (snd r)) (rows df)))"
    unfolding r set_concat by (rule_tac UN_I) 
  with assms(1) show "c \<in> set (columns df)" unfolding well_formed_def by (rule_tac subsetD)
qed

text \<open>
  C5, as the code has it. The merged table is the outer join of the vegetation table and
  the weather table on \<^verbatim>\<open>date\<close>. A date of the weather table alone has one row for each
  of its weather rows; a date of the vegetation table has one row for each pair of a
  vegetation row and a weather row of that date, and one row for each of its vegetation
  rows when no weather row has the date. When the two tables share no column but the
  date, a row whose date no weather row has is missing every weather column, and a row
  whose date no vegetation row has is missing every vegetation column.
\<close>

theorem merge_outer_on_date:
  "count_key ''date'' k (map snd (rows (merge_outer ''date'' veg_df weather_df)))
     = (if count_key ''date'' k (map snd (rows veg_df)) = 0
        then count_key ''date'' k (map snd (rows weather_df))
        else count_key ''date'' k (map snd (rows veg_df))
               * max 1 (count_key ''date'' k (map snd (rows weather_df))))
   \<and> (set (columns veg_df) \<inter> set (columns weather_df) \<subseteq> {''date''}
        \<and> well_formed veg_df \<and> well_formed weather_df
        \<and> row \<in> set (map snd (rows (merge_outer ''date'' veg_df weather_df))) \<and> c \<noteq> ''date'' \<longrightarrow>
          (count_key ''date'' (map_of row ''date'') (map snd (rows weather_df)) = 0
             \<and> c \<in> set (columns weather_df) \<longrightarrow> map_of row c = None)
        \<and> (count_key ''date'' (map_of row ''date'') (map snd (rows veg_df)) = 0
             \<and> c \<in> set (columns veg_df) \<longrightarrow> map_of row c = None))"
proof (intro conjI impI)
  show "count_key ''date'' k (map snd (rows (merge_outer ''date'' veg_df weather_df)))
     = (if count_key ''date'' k (map snd (rows veg_df)) = 0
        then count_key ''date'' k (map snd (rows weather_df))
        else count_key ''date'' k (map snd (rows veg_df))
               * max 1 (count_key ''date'' k (map snd (rows weather_df))))"
    by (rule merge_outer_count)
next
  assume h: "set (columns veg_df) \<inter> set (columns weather_df) \<subseteq> {''date''}
        \<and> well_formed veg_df \<and> well_formed weather_df
        \<and> row \<in> set (map snd (rows (merge_outer ''date'' veg_df weather_df))) \<and> c \<noteq> ''date''"
    and z: "count_key ''date'' (map_of row ''date'') (map snd (rows weather_df)) = 0
             \<and> c \<in> set (columns weather_df)"
  from h obtain p where p: "p \<in> set (pairs_outer ''date'' (map snd (rows veg_df)) (map snd (rows weather_df)))"
    and row: "row = merged_row ''date'' (columns veg_df) (columns weather_df) p"
    unfolding merged_rows by auto
  have d: "map_of row ''date'' = pair_key ''date'' p" unfolding row by (rule merged_row_date)
  from pairs_outer_cases [OF p] show "map_of row c = None"
  proof (elim disjE exE conjE)
    fix l r assume "p = (Some l, Some r)" "r \<in> set (map snd (rows weather_df))"
      "map_of r ''date'' = map_of l ''date''"
    then have "0 < count_key ''date'' (map_of row ''date'') (map snd (rows weather_df))"
      by (intro count_key_pos [of r]) (simp_all add: d pair_key_def)
    with z show ?thesis by simp
  next
    fix l assume pl: "p = (Some l, None)" and l: "l \<in> set (map snd (rows veg_df))"
    from h l have "fst ` set l \<subseteq> set (columns veg_df)" by (intro well_formed_row) simp_all
    then show ?thesis unfolding row pl using h z by (intro left_only_nulls) simp_all
  next
    fix r assume "p = (None, Some r)" "r \<in> set (map snd (rows weather_df))"
    then have "0 < count_key ''date'' (map_of row ''date'') (map snd (rows weather_df))"
      by (intro count_key_pos [of r]) (simp_all add: d pair_key_def)
    with z show ?thesis by simp
  qed
next
  assume h: "set (columns veg_df) \<inter> set (columns weather_df) \<subseteq> {''date''}
        \<and> well_formed veg_df \<and> well_formed weather_df
        \<and> row \<in> set (map snd (rows (merge_outer ''date'' veg_df weather_df))) \<and> c \<noteq> ''date''"
    and z: "count_key ''date'' (map_of row ''date'') (map snd (rows veg_df)) = 0
             \<and> c \<in> set (columns veg_df)"
  from h obtain p where p: "p \<in> set (pairs_outer ''date'' (map snd (rows veg_df)) (map snd (rows weather_df)))"
    and row: "row = merged_row ''date'' (columns veg_df) (columns weather_df) p"
    unfolding merged_rows by auto
  have d: "map_of row ''date'' = pair_key ''date'' p" unfolding row by (rule merged_row_date)
  from pairs_outer_cases [OF p] show "map_of row c = None"
  proof (elim disjE exE conjE)
    fix l r assume "p = (Some l, Some r)" "l \<in> set (map snd (rows veg_df))"
    then have "0 < count_key ''date'' (map_of row ''date'') (map snd (rows veg_df))"
      by (intro count_key_pos [of l]) (simp_all add: d pair_key_def)
    with z show ?thesis by simp
  next
    fix l assume "p = (Some l, None)" "l \<in> set (map snd (rows veg_df))"
    then have "0 < count_key ''date'' (map_of row ''date'') (map snd (rows veg_df))"
      by (intro count_key_pos [of l]) (simp_all add: d pair_key_def)
    with z show ?thesis by simp
  next
    fix r assume pr: "p = (None, Some r)" and r: "r \<in> set (map snd (rows weather_df))"
    from h r have "fst ` set r \<subseteq> set (columns weather_df)" by (intro well_formed_row) simp_all
    then show ?thesis unfolding row pr using h z by (intro right_only_nulls) simp_all
  qed
qed

lemmas merge_eval = merge_outer_def pairs_outer_def merged_row_def count_key_def well_formed_def
  attach_geometry_def num_of_def enumerate_eq_zip upt_rec Let_def

theorem merge_outer_on_date_witness:
  "vegetation_table doc1 = Inr (veg1, 3) \<and> weather_table doc1 = Inr (weather1, 2)
   \<and> count_key ''date'' (Some (Str ''2020-01-01'')) (map snd (rows (merge_outer ''date'' veg1 weather1))) = 2
   \<and> count_key ''date'' (Some (Str ''2020-02-01'')) (map snd (rows (merge_outer ''date'' veg1 weather1))) = 1
   \<and> count_key ''date'' (Some (Str ''2020-03-01'')) (map snd (rows (merge_outer ''date'' veg1 weather1))) = 1
   \<and> set (columns veg1) \<inter> set (columns weather1) \<subseteq> {''date''}
   \<and> well_formed veg1 \<and> well_formed weather1
   \<and> [(''date'', Str ''2020-02-01''), (''lat'', Num 0), (''long'', Num 0), (''LANDSAT/LC08_offset50'', Num 7)]
        \<in> set (map snd (rows (merge_outer ''date'' veg1 weather1)))
   \<and> count_key ''date'' (Some (Str ''2020-02-01'')) (map snd (rows weather1)) = 0
   \<and> map_of [(''date'', Str ''2020-02-01''), (''lat'', Num 0), (''long'', Num 0),
               (''LANDSAT/LC08_offset50'', Num 7)] ''total_precipitation'' = None
   \<and> [(''date'', Str ''2020-03-01''), (''total_precipitation'', Num 4)]
        \<in> set (map snd (rows (merge_outer ''date'' veg1 weather1)))
   \<and> count_key ''date'' (Some (Str ''2020-03-01'')) (map snd (rows veg1)) = 0
   \<and> map_of [(''date'', Str ''2020-03-01''), (''total_precipitation'', Num 4)] ''lat'' = None"
  using merge_outer_on_date [of "Some (Str ''2020-01-01'')" veg1 weather1
          "[(''date'', Str ''2020-02-01''), (''lat'', Num 0), (''long'', Num 0), (''LANDSAT/LC08_offset50'', Num 7)]"
          "''total_precipitation''"]
        merge_outer_on_date [of "Some (Str ''2020-03-01'')" veg1 weather1
          "[(''date'', Str ''2020-03-01''), (''total_precipitation'', Num 4)]" "''lat''"]
  by (simp add: read_eval merge_eval doc1_def veg1_def weather1_def)

text \<open>
  C5 as stated fails: the date \<^verbatim>\<open>2020-01-01\<close>, which has two sub-locations in the
  vegetation table, appears in two rows of the table that the function returns.
\<close>

theorem merged_dates_counterexample:
  "\<exists>df. read_json_to_dataframe [''results_summary.json'' \<mapsto> doc1] ''results_summary.json'' = Inr df
     \<and> map (\<lambda>r. map_of (snd r) ''date'') (rows df)
         = [Some (Str ''2020-01-01''), Some (Str ''2020-01-01''), Some (Str ''2020-02-01''),
            Some (Str ''2020-03-01'')]
     \<and> count_key ''date'' (Some (Str ''2020-01-01'')) (map snd (rows df)) = 2"
  by (simp add: read_eval merge_eval doc1_def)

section \<open>Properties of the temporal aggregation\<close>

lemmas ts_eval = time_series_of_def aggregate_def groupby_date_def column_values_def mean_of_def
  std_of_def rename_column_def select_column_def merge_inner_date_def is_vegetation_name_def
  List.map_filter_def Let_def


lemma map_of_map_filter:
  "map_of (List.map_filter (\<lambda>c. map_option (Pair c) (g c)) cs) c = (if c \<in> set cs then g c else None)"
proof (induction cs)
  case Nil
  then show ?case by (simp add: List.map_filter_def)
next
  case (Cons a cs)
  show ?case
  proof (cases "g a")
    case None
    then show ?thesis using Cons.IH by (auto simp: List.map_filter_def)
  next
    case (Some v)
    then show ?thesis using Cons.IH by (auto simp: List.map_filter_def)
  qed
qed

lemma select_renamed:
  assumes "new \<notin> set cs" and "distinct cs"
  shows "filter (\<lambda>(c', v). c' = new)
           (map (\<lambda>(c, v). (if c = old then new else c, v))
              (List.map_filter (\<lambda>c. map_option (Pair c) (g c)) cs))
         = (if old \<in> set cs then (case g old of None \<Rightarrow> [] | Some s \<Rightarrow> [(new, s)]) else [])"
  using assms
proof (induction cs)
  case Nil
  then show ?case by (simp add: List.map_filter_def)
next
  case (Cons a cs)
  from Cons.prems have n: "new \<notin> set cs" "a \<noteq> new" and d: "distinct cs" "a \<notin> set cs" by auto
  note IH = Cons.IH [OF n(1) d(1)]
  have step: "List.map_filter (\<lambda>c. map_option (Pair c) (g c)) (a # cs)
      = (case g a of None \<Rightarrow> [] | Some v \<Rightarrow> [(a, v)])
        @ List.map_filter (\<lambda>c. map_option (Pair c) (g c)) cs"
    by (cases "g a") (simp_all add: List.map_filter_def)
  show ?case
  proof (cases "a = old")
    case True
    with d have "old \<notin> set cs" by simp
    with IH have "filter (\<lambda>(c', v). c' = new)
           (map (\<lambda>(c, v). (if c = old then new else c, v))
              (List.map_filter (\<lambda>c. map_option (Pair c) (g c)) cs)) = []" by simp
    then show ?thesis unfolding step using True by (cases "g old") simp_all
  next
    case False
    then show ?thesis unfolding step using IH n by (cases "g a") auto
  qed
qed

lemma distinct_groups: "distinct (map fst (groupby_date df))"
  by (simp add: groupby_date_def comp_def)

lemma dates_of_groups: "map fst (groupby_date df) = sort (remdups (map fst (ts_rows df)))"
  by (simp add: groupby_date_def comp_def)

lemma group_rows: "(d, rs) \<in> set (groupby_date df) \<Longrightarrow> rs = filter (\<lambda>r. fst r = d) (ts_rows df)"
  by (auto simp: groupby_date_def)

lemma concat_singletons: "(\<And>x. x \<in> set xs \<Longrightarrow> f x = [k x]) \<Longrightarrow> concat (map f xs) = map k xs"
  by (induction xs) simp_all

lemma join_groups:
  assumes "distinct (map fst G)"
  shows "concat (map (\<lambda>(d, lcells).
             map (\<lambda>(d', rcells). (d, lcells @ rcells))
               (filter (\<lambda>(d', rcells). d' = d) (map (\<lambda>(d, rs). (d, S rs)) G)))
           (map (\<lambda>(d, rs). (d, M rs)) G))
         = map (\<lambda>(d, rs). (d, M rs @ S rs)) G"
proof -
  have "concat (map ((\<lambda>(d, lcells).
             map (\<lambda>(d', rcells). (d, lcells @ rcells))
               (filter (\<lambda>(d', rcells). d' = d) (map (\<lambda>(d, rs). (d, S rs)) G))) \<circ> (\<lambda>(d, rs). (d, M rs))) G)
         = map (\<lambda>(d, rs). (d, M rs @ S rs)) G"
  proof (rule concat_singletons)
    fix x assume x: "x \<in> set G"
    obtain d rs where xd: "x = (d, rs)" by (cases x)
    have "filter (\<lambda>(d', rcells). d' = d) (map (\<lambda>(d, rs). (d, S rs)) G)
        = map (\<lambda>(d, rs). (d, S rs)) (filter (\<lambda>y. fst y = fst x) G)"
      by (simp add: filter_map comp_def case_prod_unfold xd)
    also have "filter (\<lambda>y. fst y = fst x) G = [x]" using assms x by (rule filter_distinct_key)
    finally have "filter (\<lambda>(d', rcells). d' = d) (map (\<lambda>(d, rs). (d, S rs)) G) = [(d, S rs)]"
      by (simp add: xd)
    then show "((\<lambda>(d, lcells).
             map (\<lambda>(d', rcells). (d, lcells @ rcells))
               (filter (\<lambda>(d', rcells). d' = d) (map (\<lambda>(d, rs). (d, S rs)) G))) \<circ> (\<lambda>(d, rs). (d, M rs))) x
         = [(case x of (d, rs) \<Rightarrow> (d, M rs @ S rs))]"
      by (simp add: xd)
  qed
  then show ?thesis by (simp only: map_map)
qed

lemma renamed_columns:
  "distinct cs \<Longrightarrow> old \<in> set cs \<Longrightarrow> new \<notin> set cs \<Longrightarrow>
   filter (\<lambda>c'. c' = new) (map (\<lambda>c. if c = old then new else c) cs) = [new]"
proof (induction cs)
  case Nil
  then show ?case by simp
next
  case (Cons a cs)
  show ?case
  proof (cases "a = old")
    case True
    with Cons.prems have "old \<notin> set cs" "new \<notin> set cs" by auto
    then have "filter (\<lambda>c'. c' = new) (map (\<lambda>c. if c = old then new else c) cs) = []"
      by (auto simp: filter_empty_conv)
    with True show ?thesis by simp
  next
    case False
    with Cons.prems have "distinct cs" "old \<in> set cs" "new \<notin> set cs" "a \<noteq> new" by auto
    with Cons.IH False show ?thesis by simp
  qed
qed

lemma aggregate_mean:
  "aggregate mean_of df =
     \<lparr>ts_columns = ts_columns df,
      ts_rows = map (\<lambda>(d, rs). (d, mean_cells (ts_columns df) rs)) (groupby_date df)\<rparr>"
  by (simp add: aggregate_def mean_cells_def)

lemma rows_compose:
  "map (\<lambda>(d, cells). (d, F cells)) (map (\<lambda>(d, cells). (d, R cells)) (map (\<lambda>(d, rs). (d, A rs)) G))
     = map (\<lambda>(d, rs). (d, F (R (A rs)))) G"
  by (induction G) auto

lemma selected_stds:
  assumes d: "distinct (ts_columns df)" and o: "''offset50'' \<in> set (ts_columns df)"
    and n: "''offset50_std'' \<notin> set (ts_columns df)"
  shows "select_column ''offset50_std'' (rename_column ''offset50'' ''offset50_std'' (aggregate std_of df))
     = Inr \<lparr>ts_columns = [''offset50_std''],
            ts_rows = map (\<lambda>(d, rs). (d, std_cells rs)) (groupby_date df)\<rparr>"
proof -
  let ?cols = "ts_columns df"
  let ?A = "\<lambda>rs. List.map_filter (\<lambda>c. map_option (Pair c) (std_of (column_values c rs))) ?cols"
  let ?R = "map (\<lambda>(c, v). (if c = ''offset50'' then ''offset50_std'' else c, v :: real))"
  let ?F = "filter (\<lambda>(c', v :: real). c' = ''offset50_std'')"
  let ?stds1 = "rename_column ''offset50'' ''offset50_std'' (aggregate std_of df)"
  have cols1: "ts_columns ?stds1 = map (\<lambda>c. if c = ''offset50'' then ''offset50_std'' else c) ?cols"
    by (simp add: rename_column_def aggregate_def)
  have rows1: "ts_rows ?stds1 = map (\<lambda>(d, cells). (d, ?R cells)) (map (\<lambda>(d, rs). (d, ?A rs)) (groupby_date df))"
    by (simp add: rename_column_def aggregate_def)
  have c1: "''offset50_std'' \<in> set (ts_columns ?stds1)"
    unfolding cols1 using o by force
  have c2: "filter (\<lambda>c'. c' = ''offset50_std'') (ts_columns ?stds1) = [''offset50_std'']"
    unfolding cols1 using d o n by (rule renamed_columns)
  have cells: "\<And>rs. ?F (?R (?A rs)) = std_cells rs"
    using select_renamed [OF n d, of "''offset50''" "\<lambda>c. std_of (column_values c rs)" for rs] o
    by (simp add: std_cells_def)
  have r2: "map (\<lambda>(d, cells). (d, ?F cells)) (ts_rows ?stds1)
      = map (\<lambda>(d, rs). (d, std_cells rs)) (groupby_date df)"
    unfolding rows1 rows_compose cells ..
  have "select_column ''offset50_std'' ?stds1 =
      Inr \<lparr>ts_columns = filter (\<lambda>c'. c' = ''offset50_std'') (ts_columns ?stds1),
           ts_rows = map (\<lambda>(d, cells). (d, ?F cells)) (ts_rows ?stds1)\<rparr>"
    using c1 by (simp only: select_column_def if_True)
  then show ?thesis unfolding c2 r2 .
qed

lemma time_series_of_normal_form:
  assumes d: "distinct (ts_columns df)" and o: "''offset50'' \<in> set (ts_columns df)"
    and n: "''offset50_std'' \<notin> set (ts_columns df)"
  shows "time_series_of df =
     Inr \<lparr>ts_columns = ts_columns df @ [''offset50_std''],
          ts_rows = map (\<lambda>(d, rs). (d, mean_cells (ts_columns df) rs @ std_cells rs)) (groupby_date df)\<rparr>"
proof -
  let ?cols = "ts_columns df" and ?G = "groupby_date df"
  let ?means = "\<lparr>ts_columns = ?cols, ts_rows = map (\<lambda>(d, rs). (d, mean_cells ?cols rs)) ?G\<rparr>"
  let ?stds2 = "\<lparr>ts_columns = [''offset50_std''], ts_rows = map (\<lambda>(d, rs). (d, std_cells rs)) ?G\<rparr>"
  have ov: "(\<lambda>c. c \<in> set (ts_columns ?means) \<and> c \<in> set (ts_columns ?stds2)) = (\<lambda>c. False)"
    using n by auto
  have idm: "\<And>cells :: (string \<times> real) list. map (\<lambda>(c, v). (c, v)) cells = cells" by simp
  have "merge_inner_date ?means ?stds2 =
      \<lparr>ts_columns = ?cols @ [''offset50_std''],
       ts_rows = concat (map (\<lambda>(d, lcells).
             map (\<lambda>(d', rcells). (d, lcells @ rcells))
               (filter (\<lambda>(d', rcells). d' = d) (map (\<lambda>(d, rs). (d, std_cells rs)) ?G)))
           (map (\<lambda>(d, rs). (d, mean_cells ?cols rs)) ?G))\<rparr>"
    unfolding merge_inner_date_def Let_def ov by (simp add: idm)
  also have "\<dots> = \<lparr>ts_columns = ?cols @ [''offset50_std''],
       ts_rows = map (\<lambda>(d, rs). (d, mean_cells ?cols rs @ std_cells rs)) ?G\<rparr>"
    by (simp only: join_groups [OF distinct_groups])
  finally have m: "merge_inner_date ?means ?stds2 = \<lparr>ts_columns = ?cols @ [''offset50_std''],
       ts_rows = map (\<lambda>(d, rs). (d, mean_cells ?cols rs @ std_cells rs)) ?G\<rparr>" .
  show ?thesis
    unfolding time_series_of_def Let_def selected_stds [OF d o n] aggregate_mean
    by (simp only: sum.case m)
qed

lemma map_of_std_cells:
  "map_of (std_cells rs) c = (if c = ''offset50_std'' then std_of (column_values ''offset50'' rs) else None)"
  by (simp add: std_cells_def split: option.splits)

lemma map_of_mean_cells:
  "map_of (mean_cells cols rs) c = (if c \<in> set cols then mean_of (column_values c rs) else None)"
  unfolding mean_cells_def by (rule map_of_map_filter)


lemma make_time_series_member:
  "make_time_series dfs = Inr res \<Longrightarrow> (col_name, df) \<in> set dfs \<Longrightarrow>
   is_vegetation_name col_name \<Longrightarrow> time_series_of df = Inr out \<Longrightarrow> (col_name, out) \<in> set res"
proof (induction dfs arbitrary: res)
  case Nil
  then show ?case by simp
next
  case (Cons a dfs)
  obtain n f where a: "a = (n, f)" by (cases a)
  from Cons.prems(1) obtain f' res' where tl: "make_time_series dfs = Inr res'" and res: "res = (n, f') # res'"
    and hd: "f' = (if is_vegetation_name n then projr (time_series_of f) else f)"
    by (auto simp: a split: if_splits sum.splits)
  from Cons.prems(2) consider "(col_name, df) = (n, f)" | "(col_name, df) \<in> set dfs" by (auto simp: a)
  then show ?case
  proof cases
    case 1
    with Cons.prems(3,4) hd have "f' = out" by simp
    with 1 res show ?thesis by simp
  next
    case 2
    from Cons.IH [OF tl 2 Cons.prems(3,4)] res show ?thesis by simp
  qed
qed

text \<open>
  C4, as the code has it. For a vegetation collection whose table has distinct numeric
  columns, among them \<^verbatim>\<open>offset50\<close> and not \<^verbatim>\<open>offset50_std\<close>, the aggregated table has one
  row per date; in the row of a date every numeric column holds the mean of its values on
  that date, and the single added column \<^verbatim>\<open>offset50_std\<close> holds the sample standard
  deviation of \<^verbatim>\<open>offset50\<close> on that date, missing when the date has one value. No other
  column is added. A collection that is not a vegetation collection keeps its table.
\<close>

theorem time_series_mean_std:
  "(distinct (ts_columns df) \<and> ''offset50'' \<in> set (ts_columns df)
      \<and> ''offset50_std'' \<notin> set (ts_columns df) \<and> is_vegetation_name col_name \<longrightarrow>
     (\<exists>out. time_series_of df = Inr out
        \<and> make_time_series [(col_name, df)] = Inr [(col_name, out)]
        \<and> ((col_name, df) \<in> set dfs \<and> make_time_series dfs = Inr res \<longrightarrow> (col_name, out) \<in> set res)
        \<and> ts_columns out = ts_columns df @ [''offset50_std'']
        \<and> map fst (ts_rows out) = sort (remdups (map fst (ts_rows df)))
        \<and> (\<forall>row \<in> set (ts_rows out).
             (\<forall>c \<in> set (ts_columns df).
                map_of (snd row) c = mean_of (column_values c (filter (\<lambda>r. fst r = fst row) (ts_rows df))))
           \<and> map_of (snd row) ''offset50_std''
                = std_of (column_values ''offset50'' (filter (\<lambda>r. fst r = fst row) (ts_rows df)))
           \<and> (\<forall>c. c \<notin> set (ts_columns df) \<and> c \<noteq> ''offset50_std'' \<longrightarrow> map_of (snd row) c = None))))
   \<and> std_of [x] = None
   \<and> (\<not> is_vegetation_name col_name \<longrightarrow> make_time_series [(col_name, df)] = Inr [(col_name, df)])"
proof (intro conjI impI)
  assume h: "distinct (ts_columns df) \<and> ''offset50'' \<in> set (ts_columns df)
      \<and> ''offset50_std'' \<notin> set (ts_columns df) \<and> is_vegetation_name col_name"
  then have d: "distinct (ts_columns df)" and o: "''offset50'' \<in> set (ts_columns df)"
    and n: "''offset50_std'' \<notin> set (ts_columns df)" and v: "is_vegetation_name col_name"
    by simp_all
  let ?cols = "ts_columns df"
  let ?out = "\<lparr>ts_columns = ?cols @ [''offset50_std''],
          ts_rows = map (\<lambda>(d, rs). (d, mean_cells ?cols rs @ std_cells rs)) (groupby_date df)\<rparr>"
  have t: "time_series_of df = Inr ?out" by (rule time_series_of_normal_form [OF d o n])
  have m1: "make_time_series [(col_name, df)] = Inr [(col_name, ?out)]"
    using v t by simp
  have m2: "(col_name, df) \<in> set dfs \<and> make_time_series dfs = Inr res \<longrightarrow> (col_name, ?out) \<in> set res"
    using make_time_series_member [OF _ _ v t] by auto
  have c: "ts_columns ?out = ?cols @ [''offset50_std'']" by simp
  have dts: "map fst (ts_rows ?out) = sort (remdups (map fst (ts_rows df)))"
    using dates_of_groups [of df] by (simp add: comp_def case_prod_unfold)
  have rows: "\<forall>row \<in> set (ts_rows ?out).
             (\<forall>c \<in> set ?cols.
                map_of (snd row) c = mean_of (column_values c (filter (\<lambda>r. fst r = fst row) (ts_rows df))))
           \<and> map_of (snd row) ''offset50_std''
                = std_of (column_values ''offset50'' (filter (\<lambda>r. fst r = fst row) (ts_rows df)))
           \<and> (\<forall>c. c \<notin> set ?cols \<and> c \<noteq> ''offset50_std'' \<longrightarrow> map_of (snd row) c = None)"
  proof
    fix row assume "row \<in> set (ts_rows ?out)"
    then obtain d rs where g: "(d, rs) \<in> set (groupby_date df)"
      and row: "row = (d, mean_cells ?cols rs @ std_cells rs)" by auto
    have rs: "rs = filter (\<lambda>r. fst r = fst row) (ts_rows df)"
      using group_rows [OF g] by (simp add: row)
    have look: "\<And>c. map_of (snd row) c =
        (case map_of (mean_cells ?cols rs) c of None \<Rightarrow> map_of (std_cells rs) c | Some v \<Rightarrow> Some v)"
      by (simp add: row map_add_def)
    show "(\<forall>c \<in> set ?cols.
                map_of (snd row) c = mean_of (column_values c (filter (\<lambda>r. fst r = fst row) (ts_rows df))))
           \<and> map_of (snd row) ''offset50_std''
                = std_of (column_values ''offset50'' (filter (\<lambda>r. fst r = fst row) (ts_rows df)))
           \<and> (\<forall>c. c \<notin> set ?cols \<and> c \<noteq> ''offset50_std'' \<longrightarrow> map_of (snd row) c = None)"
      unfolding rs [symmetric] look map_of_mean_cells map_of_std_cells
      using n by (auto split: option.splits)
  qed
  show "\<exists>out. time_series_of df = Inr out
        \<and> make_time_series [(col_name, df)] = Inr [(col_name, out)]
        \<and> ((col_name, df) \<in> set dfs \<and> make_time_series dfs = Inr res \<longrightarrow> (col_name, out) \<in> set res)
        \<and> ts_columns out = ts_columns df @ [''offset50_std'']
        \<and> map fst (ts_rows out) = sort (remdups (map fst (ts_rows df)))
        \<and> (\<forall>row \<in> set (ts_rows out).
             (\<forall>c \<in> set (ts_columns df).
                map_of (snd row) c = mean_of (column_values c (filter (\<lambda>r. fst r = fst row) (ts_rows df))))
           \<and> map_of (snd row) ''offset50_std''
                = std_of (column_values ''offset50'' (filter (\<lambda>r. fst r = fst row) (ts_rows df)))
           \<and> (\<forall>c. c \<notin> set (ts_columns df) \<and> c \<noteq> ''offset50_std'' \<longrightarrow> map_of (snd row) c = None))"
    using t m1 m2 c dts rows by (intro exI [of _ ?out] conjI)
next
  show "std_of [x] = None" by (simp add: std_of_def)
next
  assume "\<not> is_vegetation_name col_name"
  then show "make_time_series [(col_name, df)] = Inr [(col_name, df)]" by simp
qed

theorem time_series_mean_std_witness:
  "distinct (ts_columns ts1) \<and> ''offset50'' \<in> set (ts_columns ts1)
   \<and> ''offset50_std'' \<notin> set (ts_columns ts1) \<and> is_vegetation_name ''LANDSAT/LC08''
   \<and> time_series_of ts1 = Inr ts1_out
   \<and> make_time_series [(''LANDSAT/LC08'', ts1), (''ECMWF/ERA5'', ts1)]
       = Inr [(''LANDSAT/LC08'', ts1_out), (''ECMWF/ERA5'', ts1)]
   \<and> (\<exists>out. time_series_of ts1 = Inr out
        \<and> make_time_series [(''LANDSAT/LC08'', ts1)] = Inr [(''LANDSAT/LC08'', out)]
        \<and> ((''LANDSAT/LC08'', ts1) \<in> set [(''LANDSAT/LC08'', ts1), (''ECMWF/ERA5'', ts1)]
             \<and> make_time_series [(''LANDSAT/LC08'', ts1), (''ECMWF/ERA5'', ts1)]
                 = Inr [(''LANDSAT/LC08'', ts1_out), (''ECMWF/ERA5'', ts1)]
             \<longrightarrow> (''LANDSAT/LC08'', out) \<in> set [(''LANDSAT/LC08'', ts1_out), (''ECMWF/ERA5'', ts1)])
        \<and> ts_columns out = ts_columns ts1 @ [''offset50_std'']
        \<and> map fst (ts_rows out) = sort (remdups (map fst (ts_rows ts1)))
        \<and> (\<forall>row \<in> set (ts_rows out).
             (\<forall>c \<in> set (ts_columns ts1).
                map_of (snd row) c = mean_of (column_values c (filter (\<lambda>r. fst r = fst row) (ts_rows ts1))))
           \<and> map_of (snd row) ''offset50_std''
                = std_of (column_values ''offset50'' (filter (\<lambda>r. fst r = fst row) (ts_rows ts1)))
           \<and> (\<forall>c. c \<notin> set (ts_columns ts1) \<and> c \<noteq> ''offset50_std'' \<longrightarrow> map_of (snd row) c = None)))
   \<and> std_of [9] = None
   \<and> \<not> is_vegetation_name ''ECMWF/ERA5''
   \<and> make_time_series [(''ECMWF/ERA5'', ts1)] = Inr [(''ECMWF/ERA5'', ts1)]"
proof -
  have h: "distinct (ts_columns ts1) \<and> ''offset50'' \<in> set (ts_columns ts1)
      \<and> ''offset50_std'' \<notin> set (ts_columns ts1) \<and> is_vegetation_name ''LANDSAT/LC08''"
    by (simp add: ts1_def is_vegetation_name_def)
  have nv: "\<not> is_vegetation_name ''ECMWF/ERA5''" by (simp add: is_vegetation_name_def)
  have e1: "time_series_of ts1 = Inr ts1_out" by (simp add: ts_eval ts1_def ts1_out_def)
  have e2: "make_time_series [(''LANDSAT/LC08'', ts1), (''ECMWF/ERA5'', ts1)]
       = Inr [(''LANDSAT/LC08'', ts1_out), (''ECMWF/ERA5'', ts1)]"
    using h nv e1 by simp
  note t = time_series_mean_std [of ts1 "''LANDSAT/LC08''"
      "[(''LANDSAT/LC08'', ts1), (''ECMWF/ERA5'', ts1)]"
      "[(''LANDSAT/LC08'', ts1_out), (''ECMWF/ERA5'', ts1)]" 9]
  note t' = time_series_mean_std [of ts1 "''ECMWF/ERA5''" "[]" "[]" 9]
  note c = mp [OF t [THEN conjunct1] h]
  note s = t [THEN conjunct2, THEN conjunct1]
  note p = mp [OF t' [THEN conjunct2, THEN conjunct2] nv]
  from h have h1: "distinct (ts_columns ts1)" and h2: "''offset50'' \<in> set (ts_columns ts1)"
    and h3: "''offset50_std'' \<notin> set (ts_columns ts1)" and h4: "is_vegetation_name ''LANDSAT/LC08''"
    by simp_all
  show ?thesis using h1 h2 h3 h4 e1 e2 c s nv p by (intro conjI)
qed

text \<open>
  C4 as stated fails: the table of a vegetation collection with the metrics \<^verbatim>\<open>offset50\<close>
  and \<^verbatim>\<open>ndvi\<close> is aggregated to a table with the mean of both and the deviation of
  \<^verbatim>\<open>offset50\<close> alone; it has no column \<^verbatim>\<open>ndvi_std\<close>.
\<close>

theorem time_series_std_counterexample:
  "make_time_series [(''LANDSAT/LC08'', ts1)] = Inr [(''LANDSAT/LC08'', ts1_out)]
   \<and> ts_columns ts1_out = [''offset50'', ''ndvi'', ''offset50_std'']
   \<and> ''ndvi'' \<in> set (ts_columns ts1)
   \<and> ''ndvi_std'' \<notin> set (ts_columns ts1_out)
   \<and> map_of (snd (hd (ts_rows ts1_out))) ''ndvi_std'' = None"
  by (simp add: ts_eval ts1_def ts1_out_def)

end
